theory Spec2Isabelle
  imports Main "HOL-Library.AList"
begin

section \<open>Values and errors\<close>

text \<open>
  Immutable JSON data (RPC payloads, block records, parsed overlay payloads) is a tree.
  A JavaScript number is kept as an integer: no function below looks inside one except
  for its truthiness.  An object is the list of its own properties in insertion order;
  \<open>map_of\<close> reads a property, and \<open>None\<close> stands for \<open>undefined\<close>.
\<close>

datatype json =
    JNull
  | JBool bool
  | JNum int
  | JStr string
  | JArr "json list"
  | JObj "(string \<times> json) list"

text \<open>
  Every \<open>throw\<close> of \<open>overlay.ts\<close> is a constructor.  \<open>Thrown\<close> is an exception raised
  by a collaborator (\<open>fetch\<close>, \<open>response.json()\<close>, \<open>readdir\<close>, \<open>readFile\<close>,
  \<open>JSON.parse\<close>, \<open>yaml.load\<close>); it carries the \<open>code\<close> property of the exception when it
  has one.  \<open>TypeError\<close> is the engine's own exception for a property read on \<open>null\<close>.
\<close>

datatype error =
    ChainIdEmpty
  | NoMatch string
  | RootMutation string
  | MergeIntoArray string
  | HttpStatus string nat string
  | RpcError json
  | MissingResult string string
  | NoBlockWithTransactions string string
  | MissingBlockHash
  | NoTransactionHashes
  | InvalidHex string
  | TypeError
  | Thrown "string option"

section \<open>Strings and BigInt\<close>

text \<open>
  \<open>String.prototype.trim\<close> and \<open>BigInt(string)\<close> strip the same characters: WhiteSpace and
  LineTerminator.  Of these, the ones a \<open>char\<close> can hold are TAB, LF, VT, FF, CR, SP and
  NBSP.
\<close>

definition isWhiteSpace :: "char \<Rightarrow> bool" where
  "isWhiteSpace c = (of_char c \<in> {9, 10, 11, 12, 13, 32, 160 :: nat})"

definition trim :: "string \<Rightarrow> string" where
  "trim s = rev (dropWhile isWhiteSpace (rev (dropWhile isWhiteSpace s)))"

definition digitVal :: "char \<Rightarrow> nat option" where
  "digitVal c =
     (let n = (of_char c :: nat) in
      if 48 \<le> n \<and> n \<le> 57 then Some (n - 48)
      else if 97 \<le> n \<and> n \<le> 102 then Some (n - 87)
      else if 65 \<le> n \<and> n \<le> 70 then Some (n - 55)
      else None)"

fun digitsVal :: "nat \<Rightarrow> nat \<Rightarrow> string \<Rightarrow> nat option" where
  "digitsVal b acc [] = Some acc"
| "digitsVal b acc (c # cs) =
     (case digitVal c of
        None \<Rightarrow> None
      | Some d \<Rightarrow> if d < b then digitsVal b (acc * b + d) cs else None)"

definition digitString :: "nat \<Rightarrow> string \<Rightarrow> int option" where
  "digitString b ds = (if ds = [] then None else map_option int (digitsVal b 0 ds))"

text \<open>
  \<open>BigInt(value)\<close> on a string (StringToBigInt): the empty string is \<open>0n\<close>; a prefix
  \<open>0x\<close>, \<open>0o\<close>, \<open>0b\<close> (either case) selects the base and takes no sign; otherwise an
  optional sign and decimal digits.  \<open>None\<close> is the SyntaxError.
\<close>

fun stringToBigInt :: "string \<Rightarrow> int option" where
  "stringToBigInt [] = Some 0"
| "stringToBigInt (c # cs) =
     (if c = CHR ''0'' \<and> cs \<noteq> [] \<and> hd cs \<in> {CHR ''x'', CHR ''X''} then digitString 16 (tl cs)
      else if c = CHR ''0'' \<and> cs \<noteq> [] \<and> hd cs \<in> {CHR ''o'', CHR ''O''} then digitString 8 (tl cs)
      else if c = CHR ''0'' \<and> cs \<noteq> [] \<and> hd cs \<in> {CHR ''b'', CHR ''B''} then digitString 2 (tl cs)
      else if c = CHR ''+'' then digitString 10 cs
      else if c = CHR ''-'' then map_option uminus (digitString 10 cs)
      else digitString 10 (c # cs))"

definition BigInt :: "string \<Rightarrow> int option" where
  "BigInt value = stringToBigInt (trim value)"

definition digitChar :: "nat \<Rightarrow> char" where
  "digitChar d = ''0123456789abcdef'' ! d"

function natDigits :: "nat \<Rightarrow> nat \<Rightarrow> string" where
  "natDigits b n =
     (if b < 2 \<or> n < b then [digitChar n] else natDigits b (n div b) @ [digitChar (n mod b)])"
  by pat_completeness auto
termination
  by (relation "measure snd") auto

declare natDigits.simps [simp del]

text \<open>\<open>BigInt.prototype.toString(radix)\<close> for radix 10 and 16.\<close>

definition toString :: "nat \<Rightarrow> int \<Rightarrow> string" where
  "toString radix n =
     (if n < 0 then CHR ''-'' # natDigits radix (nat (- n)) else natDigits radix (nat n))"

section \<open>Chain id normalisation\<close>

definition normalizeChainId :: "string \<Rightarrow> error + string" where
  "normalizeChainId value =
     (let trimmed = trim value in
      if trimmed = [] then Inl ChainIdEmpty
      else case BigInt trimmed of
             Some n \<Rightarrow> Inr (toString 10 n)
           | None \<Rightarrow> Inr trimmed)"

section \<open>The JSON-RPC exchange\<close>

text \<open>
  JavaScript truthiness of a JSON value, and a property read \<open>v.name\<close>: it throws on
  \<open>null\<close>, and is \<open>undefined\<close> (\<open>None\<close>) on a primitive, on an array (for the names read
  below) and on an object without that property.
\<close>

fun truthy :: "json \<Rightarrow> bool" where
  "truthy JNull = False"
| "truthy (JBool b) = b"
| "truthy (JNum n) = (n \<noteq> 0)"
| "truthy (JStr s) = (s \<noteq> [])"
| "truthy (JArr xs) = True"
| "truthy (JObj fs) = True"

fun getProp :: "json \<Rightarrow> string \<Rightarrow> error + json option" where
  "getProp JNull name = Inl TypeError"
| "getProp (JObj fs) name = Inr (map_of fs name)"
| "getProp v name = Inr None"

text \<open>
  What \<open>fetch\<close> resolves to: the \<open>ok\<close> flag, the status line, and the outcome of
  \<open>response.json()\<close>.  The endpoint is a parameter: its answer to a POST of
  \<open>{jsonrpc, id, method, params}\<close> at a URL, or the exception \<open>fetch\<close> rejects with.
  The request id (\<open>Date.now()\<close>) is a correlation token and is left out, and the endpoint
  answers equal requests equally for the length of one call.
\<close>

record response =
  ok :: bool
  status :: nat
  statusText :: string
  body :: "error + json"

type_synonym endpoint = "string \<Rightarrow> string \<Rightarrow> json list \<Rightarrow> error + response"

definition jsonRpcRequest :: "endpoint \<Rightarrow> string \<Rightarrow> string \<Rightarrow> json list \<Rightarrow> error + json" where
  "jsonRpcRequest fetch rpcUrl method params =
     (case fetch rpcUrl method params of
        Inl e \<Rightarrow> Inl e
      | Inr response \<Rightarrow>
          if \<not> ok response then Inl (HttpStatus rpcUrl (status response) (statusText response))
          else case body response of
                 Inl e \<Rightarrow> Inl e
               | Inr payload \<Rightarrow>
                   (let result = (case getProp payload ''result'' of
                                    Inl e \<Rightarrow> Inl e
                                  | Inr None \<Rightarrow> Inl (MissingResult rpcUrl method)
                                  | Inr (Some r) \<Rightarrow> Inr r)
                    in case getProp payload ''error'' of
                         Inl e \<Rightarrow> Inl e
                       | Inr None \<Rightarrow> result
                       | Inr (Some err) \<Rightarrow> if truthy err then Inl (RpcError err) else result))"

section \<open>Chain resolution\<close>

text \<open>
  \<open>resolveOverlayChainId\<close> returns the chain id, or \<open>undefined\<close> (\<open>None\<close>), together with
  the warnings it printed: each is the URL and the caught exception.  The result of
  \<open>eth_chainId\<close> is typed \<open>string\<close> without a check; \<open>value.trim()\<close> on anything else is a
  TypeError.
\<close>

definition resolveOverlayChainId ::
  "endpoint \<Rightarrow> string option \<Rightarrow> string option \<times> (string \<times> error) list" where
  "resolveOverlayChainId fetch rpcUrl =
     (case rpcUrl of
        None \<Rightarrow> (None, [])
      | Some url \<Rightarrow>
          if url = [] then (None, [])
          else case (case jsonRpcRequest fetch url ''eth_chainId'' [] of
                       Inl e \<Rightarrow> Inl e
                     | Inr (JStr rawChainId) \<Rightarrow> normalizeChainId rawChainId
                     | Inr _ \<Rightarrow> Inl TypeError) of
                 Inl error \<Rightarrow> (None, [(url, error)])
               | Inr chainId \<Rightarrow> (Some chainId, []))"

section \<open>Network context: the backward searches\<close>

definition hexToBigInt :: "string \<Rightarrow> error + int" where
  "hexToBigInt value = (case BigInt value of Some n \<Rightarrow> Inr n | None \<Rightarrow> Inl (InvalidHex value))"

text \<open>
  \<open>v?.name\<close>: \<open>undefined\<close> on \<open>null\<close> instead of a TypeError.  \<open>a ?? b\<close> takes \<open>b\<close> when \<open>a\<close> is
  \<open>undefined\<close> or \<open>null\<close>.
\<close>

fun optProp :: "json \<Rightarrow> string \<Rightarrow> json option" where
  "optProp (JObj fs) name = map_of fs name"
| "optProp v name = None"

fun nullish :: "json option \<Rightarrow> json \<Rightarrow> json" where
  "nullish None d = d"
| "nullish (Some JNull) d = d"
| "nullish (Some v) d = v"

definition getBlockByNumber :: "endpoint \<Rightarrow> string \<Rightarrow> string \<Rightarrow> error + json" where
  "getBlockByNumber fetch rpcUrl candidate =
     jsonRpcRequest fetch rpcUrl ''eth_getBlockByNumber'' [JStr candidate, JBool False]"

text \<open>The block tag \<open>`0x${current.toString(16)}`\<close>.\<close>

definition candidateOf :: "int \<Rightarrow> string" where
  "candidateOf current = ''0x'' @ toString 16 current"

text \<open>\<open>Array.isArray(block?.transactions) ? block.transactions : []\<close>\<close>

definition transactionsOf :: "json \<Rightarrow> json list" where
  "transactionsOf block = (case optProp block ''transactions'' of Some (JArr ts) \<Rightarrow> ts | _ \<Rightarrow> [])"

text \<open>
  The \<open>for (let i = 0; i < 64; i += 1)\<close> loop of \<open>findBlockWithTransactions\<close>, by the number
  of iterations left.  The result is the pair \<open>(number, block)\<close>.
\<close>

fun findBlockLoop :: "endpoint \<Rightarrow> string \<Rightarrow> string \<Rightarrow> nat \<Rightarrow> int \<Rightarrow> error + json \<times> json" where
  "findBlockLoop fetch rpcUrl startBlock 0 current = Inl (NoBlockWithTransactions startBlock rpcUrl)"
| "findBlockLoop fetch rpcUrl startBlock (Suc left) current =
     (if current < 0 then Inl (NoBlockWithTransactions startBlock rpcUrl)
      else let candidate = candidateOf current in
        case getBlockByNumber fetch rpcUrl candidate of
          Inl e \<Rightarrow> Inl e
        | Inr block \<Rightarrow>
            if truthy block \<and> transactionsOf block \<noteq> []
            then Inr (nullish (optProp block ''number'') (JStr candidate), block)
            else findBlockLoop fetch rpcUrl startBlock left (current - 1))"

definition findBlockWithTransactions :: "endpoint \<Rightarrow> string \<Rightarrow> string \<Rightarrow> error + json \<times> json" where
  "findBlockWithTransactions fetch rpcUrl startBlock =
     (case hexToBigInt startBlock of
        Inl e \<Rightarrow> Inl e
      | Inr current \<Rightarrow> findBlockLoop fetch rpcUrl startBlock 64 current)"

fun isString :: "json \<Rightarrow> bool" where
  "isString (JStr s) = True"
| "isString v = False"

definition extractTransactionHash :: "json \<Rightarrow> error + string" where
  "extractTransactionHash block =
     (case getProp block ''transactions'' of
        Inl e \<Rightarrow> Inl e
      | Inr t \<Rightarrow>
          (case find isString (case t of Some (JArr ts) \<Rightarrow> ts | _ \<Rightarrow> []) of
             Some (JStr first) \<Rightarrow> Inr first
           | _ \<Rightarrow> Inl NoTransactionHashes))"

definition safeGetLogs :: "endpoint \<Rightarrow> string \<Rightarrow> json \<Rightarrow> json list" where
  "safeGetLogs fetch rpcUrl filterObj =
     (case jsonRpcRequest fetch rpcUrl ''eth_getLogs'' [filterObj] of
        Inl e \<Rightarrow> []
      | Inr (JArr entries) \<Rightarrow> entries
      | Inr _ \<Rightarrow> [])"

record LogsContext =
  blockNumber :: json
  request :: json
  logs :: "json list"

fun findLogsLoop :: "endpoint \<Rightarrow> string \<Rightarrow> nat \<Rightarrow> int \<Rightarrow> error + LogsContext option" where
  "findLogsLoop fetch rpcUrl 0 current = Inr None"
| "findLogsLoop fetch rpcUrl (Suc left) current =
     (if current < 0 then Inr None
      else let candidate = candidateOf current in
        case getBlockByNumber fetch rpcUrl candidate of
          Inl e \<Rightarrow> Inl e
        | Inr nextBlock \<Rightarrow>
            (case optProp nextBlock ''hash'' of
               None \<Rightarrow> findLogsLoop fetch rpcUrl left (current - 1)
             | Some h \<Rightarrow>
                 if \<not> truthy h then findLogsLoop fetch rpcUrl left (current - 1)
                 else let nextRequest = JObj [(''blockHash'', h)];
                          nextLogs = safeGetLogs fetch rpcUrl nextRequest in
                   if nextLogs \<noteq> []
                   then Inr (Some \<lparr>blockNumber = nullish (optProp nextBlock ''number'') (JStr candidate),
                                    request = nextRequest, logs = nextLogs\<rparr>)
                   else findLogsLoop fetch rpcUrl left (current - 1)))"

definition findLogsCandidate ::
  "endpoint \<Rightarrow> string \<Rightarrow> json \<Rightarrow> string \<Rightarrow> error + LogsContext option" where
  "findLogsCandidate fetch rpcUrl block fallbackNumber =
     (case getProp block ''hash'' of
        Inl e \<Rightarrow> Inl e
      | Inr (Some (JStr hash)) \<Rightarrow>
          if hash = [] then Inr None
          else let firstRequest = JObj [(''blockHash'', JStr hash)];
                   firstLogs = safeGetLogs fetch rpcUrl firstRequest in
            if firstLogs \<noteq> []
            then Inr (Some \<lparr>blockNumber = nullish (optProp block ''number'') (JStr fallbackNumber),
                             request = firstRequest, logs = firstLogs\<rparr>)
            else (case hexToBigInt fallbackNumber of
                    Inl e \<Rightarrow> Inl e
                  | Inr n \<Rightarrow> findLogsLoop fetch rpcUrl 64 (n - 1))
      | Inr _ \<Rightarrow> Inr None)"

text \<open>
  The logs one iteration of the backward walk obtains for a fetched block: none when its
  \<open>hash\<close> is falsy, otherwise what \<open>safeGetLogs\<close> returns for \<open>{blockHash: hash}\<close>.
\<close>

definition logsOfBlock :: "endpoint \<Rightarrow> string \<Rightarrow> json \<Rightarrow> json list" where
  "logsOfBlock fetch rpcUrl nextBlock =
     (case optProp nextBlock ''hash'' of
        None \<Rightarrow> []
      | Some h \<Rightarrow> if truthy h then safeGetLogs fetch rpcUrl (JObj [(''blockHash'', h)]) else [])"

section \<open>Overlay actions and the loader\<close>

text \<open>
  \<open>OverlayAction\<close>, over the type of the payload values: a JSON tree as a parser delivers
  it, or a run-time value once the action lives in the store.
\<close>

datatype 'v OverlayAction =
    Set string 'v
  | Merge string "(string \<times> 'v) list"
  | Remove string

fun target :: "'v OverlayAction \<Rightarrow> string" where
  "target (Set t v) = t"
| "target (Merge t m) = t"
| "target (Remove t) = t"

text \<open>
  What \<open>JSON.parse\<close> and \<open>yaml.load\<close> deliver under the cast
  \<open>OverlayAction | OverlayAction[]\<close>.  Both parsers are parameters.
\<close>

datatype parsed =
    One "json OverlayAction"
  | Many "json OverlayAction list"

record parsers =
  JSON_parse :: "string \<Rightarrow> error + parsed"
  yaml_load :: "string \<Rightarrow> error + parsed"

definition parseOverlayFile :: "parsers \<Rightarrow> string \<Rightarrow> string \<Rightarrow> error + json OverlayAction list" where
  "parseOverlayFile P contents ext =
     (case (if ext = ''json'' then JSON_parse P contents else yaml_load P contents) of
        Inl e \<Rightarrow> Inl e
      | Inr (Many actions) \<Rightarrow> Inr actions
      | Inr (One action) \<Rightarrow> Inr [action])"

text \<open>
  The directory tree as \<open>readdir\<close> and \<open>readFile\<close> report it.  \<open>Directory\<close> holds the entries
  in enumeration order; \<open>DirectoryError\<close> is a path on which \<open>readdir\<close> raises (a missing
  directory raises with code \<open>ENOENT\<close>); \<open>FileError\<close> is a regular file on which
  \<open>readFile\<close> raises; \<open>Special\<close> is an entry that is neither a file nor a directory.
\<close>

datatype fsnode =
    Directory "(string \<times> fsnode) list"
  | DirectoryError error
  | RegularFile string
  | FileError error
  | Special

fun isDirectory :: "fsnode \<Rightarrow> bool" where
  "isDirectory (Directory entries) = True"
| "isDirectory (DirectoryError e) = True"
| "isDirectory n = False"

fun isFile :: "fsnode \<Rightarrow> bool" where
  "isFile (RegularFile contents) = True"
| "isFile (FileError e) = True"
| "isFile n = False"

text \<open>The \<open>code\<close> property of a caught exception.\<close>

fun errorCode :: "error \<Rightarrow> string option" where
  "errorCode (Thrown c) = c"
| "errorCode e = None"

text \<open>
  \<open>toLowerCase\<close> on the letters A to Z; no other character lowercases into a letter of
  \<open>json\<close>, \<open>yaml\<close> or \<open>yml\<close>.
\<close>

definition toLowerCase :: "string \<Rightarrow> string" where
  "toLowerCase s =
     map (\<lambda>c. case map_of (zip ''ABCDEFGHIJKLMNOPQRSTUVWXYZ'' ''abcdefghijklmnopqrstuvwxyz'') c of
                 Some l \<Rightarrow> l
               | None \<Rightarrow> c) s"

text \<open>\<open>entry.name.split(".").pop()?.toLowerCase()\<close>: the text after the last dot.\<close>

definition extensionOf :: "string \<Rightarrow> string" where
  "extensionOf name = toLowerCase (rev (takeWhile (\<lambda>c. c \<noteq> CHR ''.'') (rev name)))"

definition startsWithDot :: "string \<Rightarrow> bool" where
  "startsWithDot name = (case name of [] \<Rightarrow> False | c # cs \<Rightarrow> c = CHR ''.'')"

text \<open>
  \<open>loadOverlayActions\<close> on the node found at \<open>dir\<close>; \<open>loadEntries\<close> is its \<open>for\<close> loop over the
  entries, with the actions collected so far.  The \<open>catch\<close> covers the whole body.
\<close>

fun loadOverlayActions :: "parsers \<Rightarrow> fsnode \<Rightarrow> bool \<Rightarrow> error + json OverlayAction list"
  and loadEntries ::
    "parsers \<Rightarrow> bool \<Rightarrow> (string \<times> fsnode) list \<Rightarrow> json OverlayAction list \<Rightarrow> error + json OverlayAction list"
where
  "loadOverlayActions P (Directory entries) recursive =
     (case loadEntries P recursive entries [] of
        Inl e \<Rightarrow> if errorCode e = Some ''ENOENT'' then Inr [] else Inl e
      | Inr actions \<Rightarrow> Inr actions)"
| "loadOverlayActions P (DirectoryError e) recursive =
     (if errorCode e = Some ''ENOENT'' then Inr [] else Inl e)"
| "loadOverlayActions P (RegularFile contents) recursive = Inl (Thrown (Some ''ENOTDIR''))"
| "loadOverlayActions P (FileError e) recursive = Inl (Thrown (Some ''ENOTDIR''))"
| "loadOverlayActions P Special recursive = Inl (Thrown (Some ''ENOTDIR''))"
| "loadEntries P recursive [] actions = Inr actions"
| "loadEntries P recursive ((name, entry) # rest) actions =
     (if startsWithDot name then loadEntries P recursive rest actions
      else if isDirectory entry then
        (if recursive then
           (case loadOverlayActions P entry True of
              Inl e \<Rightarrow> Inl e
            | Inr sub \<Rightarrow> loadEntries P recursive rest (actions @ sub))
         else loadEntries P recursive rest actions)
      else if \<not> isFile entry then loadEntries P recursive rest actions
      else let ext = extensionOf name in
        if ext = [] \<or> ext \<notin> {''json'', ''yaml'', ''yml''} then loadEntries P recursive rest actions
        else (case entry of
                FileError e \<Rightarrow> Inl e
              | RegularFile raw \<Rightarrow>
                  (case parseOverlayFile P raw ext of
                     Inl e \<Rightarrow> Inl e
                   | Inr parsedActions \<Rightarrow> loadEntries P recursive rest (actions @ parsedActions))
              | _ \<Rightarrow> loadEntries P recursive rest actions))"

section \<open>The document store\<close>

text \<open>
  The document that \<open>applyJsonPathOverlay\<close> patches is mutated in place through references
  to its containers, so it lives in a store: a run-time value is a primitive or a
  reference to a cell, and a cell is an object (its own properties in insertion order) or
  an array.  \<open>nextAddr\<close> is the first address not yet allocated.  A hole of an array reads
  as \<open>Undefined\<close>.
\<close>

datatype jsval =
    Undefined
  | Null
  | Boolean bool
  | Number int
  | String string
  | Ref nat

datatype cell =
    Obj "(string \<times> jsval) list"
  | Arr "jsval list"

record store =
  cells :: "nat \<Rightarrow> cell"
  nextAddr :: nat

definition writeCell :: "store \<Rightarrow> nat \<Rightarrow> cell \<Rightarrow> store" where
  "writeCell h a c = h\<lparr>cells := (cells h)(a := c)\<rparr>"

definition alloc :: "store \<Rightarrow> cell \<Rightarrow> nat \<times> store" where
  "alloc h c = (nextAddr h, \<lparr>cells = (cells h)(nextAddr h := c), nextAddr = Suc (nextAddr h)\<rparr>)"

section \<open>Path matches and the mutation of one match\<close>

text \<open>
  A match as \<open>jsonpath-plus\<close> reports it with \<open>resultType: "all"\<close>: the containing object or
  array (\<open>None\<close> is the \<open>null\<close> parent of the root), the key under which the value sits (a
  property name, or an array index as a number; \<open>None\<close> is \<open>undefined\<close>), and the value.
\<close>

datatype key = Name string | Index nat

record JsonPathMatch =
  parent :: "nat option"
  parentProperty :: "key option"
  matchValue :: jsval

text \<open>
  The library itself is a parameter: from the store, the queried value and the path
  expression to the matches, or to the exception it raises.  It only reads the store.
\<close>

type_synonym jsonpath = "store \<Rightarrow> jsval \<Rightarrow> string \<Rightarrow> error + JsonPathMatch list"

definition selectNodes :: "jsonpath \<Rightarrow> store \<Rightarrow> jsval \<Rightarrow> string \<Rightarrow> error + JsonPathMatch list" where
  "selectNodes JSONPath h doc path =
     (case JSONPath h doc path of
        Inl e \<Rightarrow> Inl e
      | Inr results \<Rightarrow> if results = [] then Inl (NoMatch path) else Inr results)"

text \<open>
  A key as a property name of an object (a number key is its decimal string), and
  \<open>Number(parentProperty)\<close> for an array parent.  A string key of an array is one of its
  own property names: an index in decimal digits, or \<open>length\<close>, for which \<open>Number\<close> is NaN
  (\<open>None\<close>); the empty string counts as 0.  Other numeric literals that \<open>Number\<close> accepts
  (a sign, a fraction, an exponent, a radix prefix, blanks) are no property names of an
  array and read as NaN here.
\<close>

fun propertyName :: "key \<Rightarrow> string" where
  "propertyName (Name s) = s"
| "propertyName (Index i) = toString 10 (int i)"

fun toNumber :: "key \<Rightarrow> nat option" where
  "toNumber (Index i) = Some i"
| "toNumber (Name s) = digitsVal 10 0 s"

text \<open>
  \<open>parent.splice(start, 1)\<close>: NaN counts as 0, a start beyond the end removes nothing.
  \<open>parent[index] = v\<close>: an index beyond the end extends the array with holes; the index NaN
  sets a property that is no element, and the elements stay.
\<close>

definition splice1 :: "nat option \<Rightarrow> jsval list \<Rightarrow> jsval list" where
  "splice1 start xs = (let i = (case start of None \<Rightarrow> 0 | Some n \<Rightarrow> n) in take i xs @ drop (Suc i) xs)"

definition setIndex :: "nat option \<Rightarrow> jsval \<Rightarrow> jsval list \<Rightarrow> jsval list" where
  "setIndex index v xs =
     (case index of
        None \<Rightarrow> xs
      | Some i \<Rightarrow> if i < length xs then xs[i := v]
                  else xs @ replicate (i - length xs) Undefined @ [v])"

text \<open>
  The own enumerable properties an object spread \<open>{...c}\<close> copies from a cell, and the
  spread of a second property list over a first: an existing name keeps its place and
  takes the new value, a new name is appended.
\<close>

fun ownProperties :: "cell \<Rightarrow> (string \<times> jsval) list" where
  "ownProperties (Obj fs) = fs"
| "ownProperties (Arr xs) = zip (map (\<lambda>i. toString 10 (int i)) [0..<length xs]) xs"

definition spread :: "(string \<times> jsval) list \<Rightarrow> (string \<times> jsval) list \<Rightarrow> (string \<times> jsval) list" where
  "spread base over = fold (\<lambda>(k, v). AList.update k v) over base"

text \<open>
  \<open>applyAction\<close> raises before it writes, so it returns either the exception or the updated
  store.  \<open>typeof current === "object" && current\<close> holds exactly for a reference.
\<close>

definition applyAction :: "store \<Rightarrow> JsonPathMatch \<Rightarrow> jsval OverlayAction \<Rightarrow> error + store" where
  "applyAction h match action =
     (case (parent match, parentProperty match) of
        (None, _) \<Rightarrow> Inl (RootMutation (target action))
      | (_, None) \<Rightarrow> Inl (RootMutation (target action))
      | (Some p, Some k) \<Rightarrow>
          (case action of
             Remove t \<Rightarrow>
               (case cells h p of
                  Arr xs \<Rightarrow> Inr (writeCell h p (Arr (splice1 (toNumber k) xs)))
                | Obj fs \<Rightarrow> Inr (writeCell h p (Obj (AList.delete (propertyName k) fs))))
           | Merge t m \<Rightarrow>
               (case cells h p of
                  Arr xs \<Rightarrow> Inl (MergeIntoArray t)
                | Obj fs \<Rightarrow>
                    let current = map_of fs (propertyName k);
                        base = (case current of Some (Ref c) \<Rightarrow> ownProperties (cells h c) | _ \<Rightarrow> []);
                        (a, h') = alloc h (Obj (spread base m))
                    in Inr (writeCell h' p (Obj (AList.update (propertyName k) (Ref a) fs))))
           | Set t v \<Rightarrow>
               (case cells h p of
                  Arr xs \<Rightarrow> Inr (writeCell h p (Arr (setIndex (toNumber k) v xs)))
                | Obj fs \<Rightarrow> Inr (writeCell h p (Obj (AList.update (propertyName k) v fs))))))"

text \<open>
  The inner loop over the matches of one action and the outer loop over the actions.  A
  raise leaves every earlier write in the store, so both return the store with the
  outcome: the exception, or for \<open>applyJsonPathOverlay\<close> the value it returns.
\<close>

fun applyMatches :: "store \<Rightarrow> JsonPathMatch list \<Rightarrow> jsval OverlayAction \<Rightarrow> store \<times> error option" where
  "applyMatches h [] action = (h, None)"
| "applyMatches h (match # matches) action =
     (case applyAction h match action of
        Inl e \<Rightarrow> (h, Some e)
      | Inr h' \<Rightarrow> applyMatches h' matches action)"

fun applyJsonPathOverlay ::
  "jsonpath \<Rightarrow> store \<Rightarrow> jsval \<Rightarrow> jsval OverlayAction list \<Rightarrow> store \<times> (error + jsval)" where
  "applyJsonPathOverlay JSONPath h doc [] = (h, Inr doc)"
| "applyJsonPathOverlay JSONPath h doc (action # actions) =
     (case selectNodes JSONPath h doc (target action) of
        Inl e \<Rightarrow> (h, Inl e)
      | Inr matches \<Rightarrow>
          (case applyMatches h matches action of
             (h', Some e) \<Rightarrow> (h', Inl e)
           | (h', None) \<Rightarrow> applyJsonPathOverlay JSONPath h' doc actions))"

section \<open>Copying a document and applying the overlays\<close>

text \<open>
  \<open>JSON.stringify\<close> reads a value out of the store as a tree.  A property whose value is
  \<open>undefined\<close> is left out, an \<open>undefined\<close> array element becomes \<open>null\<close>, and \<open>undefined\<close>
  itself has no text (\<open>None\<close>).  A cyclic value raises a TypeError: the depth is bounded by
  the number of allocated cells, which only a cycle can exceed.
\<close>

fun stringifyValue :: "nat \<Rightarrow> store \<Rightarrow> jsval \<Rightarrow> error + json option"
  and stringifyElements :: "nat \<Rightarrow> store \<Rightarrow> jsval list \<Rightarrow> error + json list"
  and stringifyMembers :: "nat \<Rightarrow> store \<Rightarrow> (string \<times> jsval) list \<Rightarrow> error + (string \<times> json) list"
where
  "stringifyValue depth h Undefined = Inr None"
| "stringifyValue depth h Null = Inr (Some JNull)"
| "stringifyValue depth h (Boolean b) = Inr (Some (JBool b))"
| "stringifyValue depth h (Number n) = Inr (Some (JNum n))"
| "stringifyValue depth h (String s) = Inr (Some (JStr s))"
| "stringifyValue 0 h (Ref a) = Inl TypeError"
| "stringifyValue (Suc depth) h (Ref a) =
     (case cells h a of
        Arr xs \<Rightarrow>
          (case stringifyElements depth h xs of Inl e \<Rightarrow> Inl e | Inr ts \<Rightarrow> Inr (Some (JArr ts)))
      | Obj fs \<Rightarrow>
          (case stringifyMembers depth h fs of Inl e \<Rightarrow> Inl e | Inr ms \<Rightarrow> Inr (Some (JObj ms))))"
| "stringifyElements depth h [] = Inr []"
| "stringifyElements depth h (x # xs) =
     (case stringifyValue depth h x of
        Inl e \<Rightarrow> Inl e
      | Inr t \<Rightarrow>
          (case stringifyElements depth h xs of
             Inl e \<Rightarrow> Inl e
           | Inr ts \<Rightarrow> Inr ((case t of None \<Rightarrow> JNull | Some j \<Rightarrow> j) # ts)))"
| "stringifyMembers depth h [] = Inr []"
| "stringifyMembers depth h ((k, x) # fs) =
     (case stringifyValue depth h x of
        Inl e \<Rightarrow> Inl e
      | Inr t \<Rightarrow>
          (case stringifyMembers depth h fs of
             Inl e \<Rightarrow> Inl e
           | Inr ms \<Rightarrow> Inr ((case t of None \<Rightarrow> ms | Some j \<Rightarrow> (k, j) # ms))))"

definition JSON_stringify :: "store \<Rightarrow> jsval \<Rightarrow> error + json option" where
  "JSON_stringify h v = stringifyValue (nextAddr h) h v"

text \<open>
  The objects a parser builds for a tree: every array and object of the tree becomes a
  newly allocated cell, children first.  (The member names of a parsed object are
  distinct.)
\<close>

fun parseValue :: "json \<Rightarrow> store \<Rightarrow> jsval \<times> store"
  and parseElements :: "json list \<Rightarrow> store \<Rightarrow> jsval list \<times> store"
  and parseMembers :: "(string \<times> json) list \<Rightarrow> store \<Rightarrow> (string \<times> jsval) list \<times> store"
where
  "parseValue JNull h = (Null, h)"
| "parseValue (JBool b) h = (Boolean b, h)"
| "parseValue (JNum n) h = (Number n, h)"
| "parseValue (JStr s) h = (String s, h)"
| "parseValue (JArr ts) h =
     (case parseElements ts h of (xs, h1) \<Rightarrow> (case alloc h1 (Arr xs) of (a, h2) \<Rightarrow> (Ref a, h2)))"
| "parseValue (JObj ms) h =
     (case parseMembers ms h of (fs, h1) \<Rightarrow> (case alloc h1 (Obj fs) of (a, h2) \<Rightarrow> (Ref a, h2)))"
| "parseElements [] h = ([], h)"
| "parseElements (t # ts) h =
     (case parseValue t h of (x, h1) \<Rightarrow> (case parseElements ts h1 of (xs, h2) \<Rightarrow> (x # xs, h2)))"
| "parseMembers [] h = ([], h)"
| "parseMembers ((k, t) # ms) h =
     (case parseValue t h of (x, h1) \<Rightarrow> (case parseMembers ms h1 of (fs, h2) \<Rightarrow> ((k, x) # fs, h2)))"

text \<open>
  \<open>JSON.parse(JSON.stringify(document))\<close>.  \<open>JSON.parse(undefined)\<close> is a SyntaxError.
\<close>

definition clone :: "store \<Rightarrow> jsval \<Rightarrow> error + jsval \<times> store" where
  "clone h document =
     (case JSON_stringify h document of
        Inl e \<Rightarrow> Inl e
      | Inr None \<Rightarrow> Inl (Thrown None)
      | Inr (Some t) \<Rightarrow> Inr (parseValue t h))"

text \<open>
  The loaded actions as they sit in the store once the parsers have built them: the
  payload of a \<open>set\<close> and the values of a \<open>merge\<close> payload are parsed values.
\<close>

fun internAction :: "json OverlayAction \<Rightarrow> store \<Rightarrow> jsval OverlayAction \<times> store" where
  "internAction (Set t v) h = (case parseValue v h of (x, h') \<Rightarrow> (Set t x, h'))"
| "internAction (Merge t m) h = (case parseMembers m h of (fs, h') \<Rightarrow> (Merge t fs, h'))"
| "internAction (Remove t) h = (Remove t, h)"

fun internActions :: "json OverlayAction list \<Rightarrow> store \<Rightarrow> jsval OverlayAction list \<times> store" where
  "internActions [] h = ([], h)"
| "internActions (a # as) h =
     (case internAction a h of (a', h1) \<Rightarrow> (case internActions as h1 of (as', h2) \<Rightarrow> (a' # as', h2)))"

text \<open>
  \<open>applyExampleOverlays\<close>, in two parts.  \<open>collectActions\<close> is its first half: the actions
  of the overlay root directory (the node \<open>rootDir\<close>), followed, when a chain id was
  resolved, by those of the chain directory (\<open>chainDirOf\<close> gives the node at
  \<open>join(OVERLAYS_ROOT_DIR, chainId)\<close>), with the warnings printed.  The second half
  returns the document itself when no action was collected, and otherwise copies the
  document and patches the copy.  The result is the store, the warnings and the outcome.
\<close>

definition collectActions ::
  "parsers \<Rightarrow> endpoint \<Rightarrow> fsnode \<Rightarrow> (string \<Rightarrow> fsnode) \<Rightarrow> string option
   \<Rightarrow> (string \<times> error) list \<times> (error + json OverlayAction list)" where
  "collectActions P fetch rootDir chainDirOf rpcUrl =
     (case loadOverlayActions P rootDir False of
        Inl e \<Rightarrow> ([], Inl e)
      | Inr rootActions \<Rightarrow>
          (case resolveOverlayChainId fetch rpcUrl of
             (chainId, warnings) \<Rightarrow>
               (case chainId of
                  None \<Rightarrow> (warnings, Inr rootActions)
                | Some c \<Rightarrow>
                    if c = [] then (warnings, Inr rootActions)
                    else (case loadOverlayActions P (chainDirOf c) True of
                            Inl e \<Rightarrow> (warnings, Inl e)
                          | Inr chainActions \<Rightarrow> (warnings, Inr (rootActions @ chainActions))))))"

definition applyExampleOverlays ::
  "jsonpath \<Rightarrow> parsers \<Rightarrow> endpoint \<Rightarrow> fsnode \<Rightarrow> (string \<Rightarrow> fsnode) \<Rightarrow> store \<Rightarrow> jsval \<Rightarrow> string option
   \<Rightarrow> store \<times> (string \<times> error) list \<times> (error + jsval)" where
  "applyExampleOverlays JSONPath P fetch rootDir chainDirOf h document rpcUrl =
     (case collectActions P fetch rootDir chainDirOf rpcUrl of
        (warnings, Inl e) \<Rightarrow> (h, warnings, Inl e)
      | (warnings, Inr loaded) \<Rightarrow>
          if loaded = [] then (h, warnings, Inr document)
          else (case internActions loaded h of
                  (actions, h1) \<Rightarrow>
                    (case clone h1 document of
                       Inl e \<Rightarrow> (h1, warnings, Inl e)
                     | Inr (copy, h2) \<Rightarrow>
                         (case applyJsonPathOverlay JSONPath h2 copy actions of
                            (h3, outcome) \<Rightarrow> (h3, warnings, outcome)))))"

text \<open>
  The containers reachable from a value, and the assumption made of the path library:
  the parent of every match is a container reachable from the queried value.
\<close>

fun cellValues :: "cell \<Rightarrow> jsval list" where
  "cellValues (Obj fs) = map snd fs"
| "cellValues (Arr xs) = xs"

inductive_set reach :: "store \<Rightarrow> jsval \<Rightarrow> nat set" for h :: store and v :: jsval where
  root: "v = Ref a \<Longrightarrow> a \<in> reach h v"
| step: "a \<in> reach h v \<Longrightarrow> Ref b \<in> set (cellValues (cells h a)) \<Longrightarrow> b \<in> reach h v"

definition matchesWithin :: "jsonpath \<Rightarrow> bool" where
  "matchesWithin JSONPath =
     (\<forall>h doc path matches m p.
        JSONPath h doc path = Inr matches \<and> m \<in> set matches \<and> parent m = Some p \<longrightarrow> p \<in> reach h doc)"

text \<open>
  For the proof that a copy is separate from the original: a value lies in the region
  from address \<open>n\<close> when it is a primitive or refers to an allocated cell at \<open>n\<close> or above,
  and the region is confined when its cells hold only such values.
\<close>

definition inRegion :: "nat \<Rightarrow> store \<Rightarrow> jsval \<Rightarrow> bool" where
  "inRegion n h v = (\<forall>b. v = Ref b \<longrightarrow> n \<le> b \<and> b < nextAddr h)"

definition confined :: "nat \<Rightarrow> store \<Rightarrow> bool" where
  "confined n h =
     (\<forall>a. n \<le> a \<and> a < nextAddr h \<longrightarrow> (\<forall>v\<in>set (cellValues (cells h a)). inRegion n h v))"

fun actionIn :: "nat \<Rightarrow> store \<Rightarrow> jsval OverlayAction \<Rightarrow> bool" where
  "actionIn n h (Set t v) = inRegion n h v"
| "actionIn n h (Merge t m) = (\<forall>v\<in>set (map snd m). inRegion n h v)"
| "actionIn n h (Remove t) = True"

section \<open>Example inputs\<close>

text \<open>
  Inputs for the concrete runs below.  \<open>sixBlockFeed\<close> answers every block query with an
  empty block except at height 7, and has no logs except for the block at height 6;
  \<open>emptyFeed\<close> has only empty blocks and rejects every logs query.
\<close>

definition okResponse :: "json \<Rightarrow> error + response" where
  "okResponse result =
     Inr \<lparr>ok = True, status = 200, statusText = ''OK'',
          body = Inr (JObj [(''jsonrpc'', JStr ''2.0''), (''result'', result)])\<rparr>"

definition block7 :: json where
  "block7 = JObj [(''number'', JStr ''0x7''), (''hash'', JStr ''0xb7''),
                  (''transactions'', JArr [JStr ''0xt1'', JStr ''0xt2''])]"

definition emptyBlock :: "string \<Rightarrow> json" where
  "emptyBlock tag = JObj [(''number'', JStr tag), (''hash'', JStr (''0xb'' @ drop 2 tag)),
                          (''transactions'', JArr [])]"

definition sixBlockFeed :: endpoint where
  "sixBlockFeed url method params =
     (if method = ''eth_getBlockByNumber'' then
        (case params of
           [JStr tag, hydrated] \<Rightarrow> okResponse (if tag = ''0x7'' then block7 else emptyBlock tag)
         | _ \<Rightarrow> okResponse JNull)
      else if method = ''eth_getLogs'' then
        (if params = [JObj [(''blockHash'', JStr ''0xb6'')]]
         then okResponse (JArr [JObj [(''address'', JStr ''0xc0''), (''topics'', JArr [])]])
         else okResponse (JArr []))
      else okResponse JNull)"

definition emptyFeed :: endpoint where
  "emptyFeed url method params =
     (if method = ''eth_getBlockByNumber'' then
        (case params of [JStr tag, hydrated] \<Rightarrow> okResponse (emptyBlock tag) | _ \<Rightarrow> okResponse JNull)
      else Inl (Thrown None))"

text \<open>
  Parsers that accept the empty JSON list and one YAML action and reject the rest, and an
  overlay directory with one overlay file among entries the loader skips.
\<close>

definition sampleParsers :: parsers where
  "sampleParsers =
     \<lparr>JSON_parse = (\<lambda>contents. if contents = ''[]'' then Inr (Many []) else Inl (Thrown None)),
      yaml_load = (\<lambda>contents. if contents = ''{target: $.info, remove: true}''
                                then Inr (One (Remove ''$.info'')) else Inl (Thrown None))\<rparr>"

definition sampleOverlays :: fsnode where
  "sampleOverlays =
     Directory [(''.gitkeep'', RegularFile []),
                (''11155111'', Directory [(''eth_call.json'', RegularFile ''[]'')]),
                (''info.YAML'', RegularFile ''{target: $.info, remove: true}''),
                (''README.md'', RegularFile ''overlays'')]"

text \<open>
  A small document in the store: the root object at address 0 with an \<open>info\<close> object, a
  \<open>servers\<close> array and a string.  \<open>childPath\<close> stands in for the path library on the paths
  \<open>$\<close> (the root) and \<open>$.name\<close> (a property of a root object).
\<close>

definition sampleStore :: store where
  "sampleStore =
     \<lparr>cells = (\<lambda>a. Obj [])
        (0 := Obj [(''info'', Ref 1), (''servers'', Ref 2), (''openrpc'', String ''1.2.6'')],
         1 := Obj [(''title'', String ''RPC''), (''version'', String ''1'')],
         2 := Arr [String ''a'', String ''b'', String ''c'']),
      nextAddr = 3\<rparr>"

definition childPath :: jsonpath where
  "childPath h doc path =
     (if path = ''$'' then Inr [\<lparr>parent = None, parentProperty = None, matchValue = doc\<rparr>]
      else if take 2 path = ''$.'' then
        (case doc of
           Ref r \<Rightarrow>
             (case cells h r of
                Obj fs \<Rightarrow>
                  (case map_of fs (drop 2 path) of
                     Some v \<Rightarrow> Inr [\<lparr>parent = Some r, parentProperty = Some (Name (drop 2 path)),
                                      matchValue = v\<rparr>]
                   | None \<Rightarrow> Inr [])
              | Arr xs \<Rightarrow> Inr [])
         | _ \<Rightarrow> Inr [])
      else Inl (Thrown None))"


text \<open>
  A deployment without chain directories, and the run of \<open>applyExampleOverlays\<close> on the
  sample document with the sample overlay directory and no endpoint.
\<close>

definition noChainDir :: "string \<Rightarrow> fsnode" where
  "noChainDir chainId = DirectoryError (Thrown (Some ''ENOENT''))"

definition sampleRun :: "store \<times> (string \<times> error) list \<times> (error + jsval)" where
  "sampleRun =
     applyExampleOverlays childPath sampleParsers emptyFeed sampleOverlays noChainDir sampleStore (Ref 0) None"

section \<open>Properties\<close>

subsection \<open>Rendering and parsing numbers\<close>

lemma natDigits_last: "n < b \<Longrightarrow> natDigits b n = [digitChar n]"
  by (subst natDigits.simps) simp

lemma natDigits_step:
  "2 \<le> b \<Longrightarrow> b \<le> n \<Longrightarrow> natDigits b n = natDigits b (n div b) @ [digitChar (n mod b)]"
  by (subst natDigits.simps) simp

lemma natDigits_nonempty: "natDigits b n \<noteq> []"
  by (subst natDigits.simps) simp

lemma toString_nonempty: "toString radix n \<noteq> []"
  by (simp add: toString_def natDigits_nonempty)

lemmas chainId_eval =
  normalizeChainId_def BigInt_def trim_def isWhiteSpace_def digitString_def digitVal_def
  toString_def natDigits_last natDigits_step digitChar_def

subsection \<open>Chain id normalisation\<close>

text \<open>
  C9.  \<open>normalizeChainId\<close> maps the decimal string \<open>"1"\<close> to \<open>"1"\<close> and the hexadecimal
  string \<open>"0xaa36a7"\<close> to the decimal string \<open>"11155111"\<close>.  An input whose trimmed form
  \<open>BigInt\<close> rejects comes back trimmed and otherwise unchanged; an input that is empty
  after trimming raises; and no input yields the empty string.
\<close>

theorem normalizeChainId_canonical:
  "normalizeChainId ''1'' = Inr ''1''
   \<and> normalizeChainId ''0xaa36a7'' = Inr ''11155111''
   \<and> (trim v \<noteq> [] \<and> BigInt (trim v) = None \<longrightarrow> normalizeChainId v = Inr (trim v))
   \<and> (trim v = [] \<longrightarrow> normalizeChainId v = Inl ChainIdEmpty)
   \<and> normalizeChainId v \<noteq> Inr []"
proof -
  have one: "normalizeChainId ''1'' = Inr ''1''"
    by (simp add: chainId_eval)
  have sepolia: "normalizeChainId ''0xaa36a7'' = Inr ''11155111''"
    by (simp add: chainId_eval)
  have raw: "trim v \<noteq> [] \<and> BigInt (trim v) = None \<longrightarrow> normalizeChainId v = Inr (trim v)"
    by (simp add: normalizeChainId_def)
  have empty: "trim v = [] \<longrightarrow> normalizeChainId v = Inl ChainIdEmpty"
    by (simp add: normalizeChainId_def)
  have nonempty: "normalizeChainId v \<noteq> Inr []"
    by (simp add: normalizeChainId_def Let_def toString_nonempty split: option.split)
  from one sepolia raw empty nonempty show ?thesis by blast
qed

theorem normalizeChainId_canonical_witness:
  "normalizeChainId '' sepolia '' = Inr ''sepolia'' \<and> normalizeChainId [CHR 0x20, CHR 0x09] = Inl ChainIdEmpty"
proof -
  have raw: "trim '' sepolia '' \<noteq> [] \<and> BigInt (trim '' sepolia '') = None"
    by (simp add: chainId_eval)
  have "trim '' sepolia '' = ''sepolia''"
    by (simp add: chainId_eval)
  with raw normalizeChainId_canonical [of "'' sepolia ''"]
  have first: "normalizeChainId '' sepolia '' = Inr ''sepolia''"
    by metis
  have "trim [CHR 0x20, CHR 0x09] = []"
    by (simp add: chainId_eval)
  with normalizeChainId_canonical [of "[CHR 0x20, CHR 0x09]"]
  have "normalizeChainId [CHR 0x20, CHR 0x09] = Inl ChainIdEmpty"
    by blast
  with first show ?thesis by blast
qed

subsection \<open>The JSON-RPC exchange\<close>

text \<open>
  C10.  When the endpoint answers with a 2xx status and a JSON object that has neither an
  \<open>error\<close> property nor a \<open>result\<close> property, \<open>jsonRpcRequest\<close> raises the missing-result
  error: it returns a value only when \<open>result\<close> is present.
\<close>

theorem jsonRpcRequest_requires_result:
  assumes "fetch rpcUrl method params = Inr response"
    and "ok response"
    and "body response = Inr (JObj props)"
    and "map_of props ''error'' = None"
    and "map_of props ''result'' = None"
  shows "jsonRpcRequest fetch rpcUrl method params = Inl (MissingResult rpcUrl method)"
  using assms by (simp add: jsonRpcRequest_def)

theorem jsonRpcRequest_requires_result_witness:
  "jsonRpcRequest
     (\<lambda>url method params. Inr \<lparr>ok = True, status = 200, statusText = ''OK'',
        body = Inr (JObj [(''jsonrpc'', JStr ''2.0''), (''id'', JNum 1)])\<rparr>)
     ''http://localhost:8545'' ''eth_chainId'' []
   = Inl (MissingResult ''http://localhost:8545'' ''eth_chainId'')"
  by (rule jsonRpcRequest_requires_result [where props = "[(''jsonrpc'', JStr ''2.0''), (''id'', JNum 1)]"
        and response = "\<lparr>ok = True, status = 200, statusText = ''OK'',
        body = Inr (JObj [(''jsonrpc'', JStr ''2.0''), (''id'', JNum 1)])\<rparr>"]) simp_all

subsection \<open>The block-with-transactions search\<close>

lemma transactionsOf_truthy: "transactionsOf block \<noteq> [] \<Longrightarrow> truthy block"
  by (cases block) (simp_all add: transactionsOf_def)

lemma findBlockLoop_skip:
  "k \<le> left \<Longrightarrow> int k \<le> current + 1 \<Longrightarrow>
   \<forall>i<k. \<exists>b. getBlockByNumber fetch url (candidateOf (current - int i)) = Inr b \<and> transactionsOf b = [] \<Longrightarrow>
   findBlockLoop fetch url s left current = findBlockLoop fetch url s (left - k) (current - int k)"
proof (induction k arbitrary: left current)
  case 0
  then show ?case by simp
next
  case (Suc k)
  then obtain left' where left: "left = Suc left'" "k \<le> left'"
    by (cases left) auto
  from Suc.prems(3) obtain b where b: "getBlockByNumber fetch url (candidateOf current) = Inr b" "transactionsOf b = []"
    by fastforce
  have rest: "\<forall>i<k. \<exists>b. getBlockByNumber fetch url (candidateOf (current - 1 - int i)) = Inr b \<and> transactionsOf b = []"
  proof (intro allI impI)
    fix i assume "i < k"
    then have "Suc i < Suc k" by simp
    with Suc.prems(3) have "\<exists>b. getBlockByNumber fetch url (candidateOf (current - int (Suc i))) = Inr b \<and> transactionsOf b = []"
      by blast
    moreover have "current - int (Suc i) = current - 1 - int i" by simp
    ultimately show "\<exists>b. getBlockByNumber fetch url (candidateOf (current - 1 - int i)) = Inr b \<and> transactionsOf b = []"
      by (simp only:)
  qed
  from Suc.prems(2) have nonneg: "\<not> current < 0" "int k \<le> (current - 1) + 1" by simp_all
  have "findBlockLoop fetch url s left current = findBlockLoop fetch url s left' (current - 1)"
    using left b nonneg by simp
  also have "\<dots> = findBlockLoop fetch url s (left' - k) (current - 1 - int k)"
    using Suc.IH [OF left(2) nonneg(2) rest] .
  finally show ?case using left by (simp add: algebra_simps)
qed

lemma findBlockLoop_found:
  assumes "getBlockByNumber fetch url (candidateOf current) = Inr block" "transactionsOf block \<noteq> []" "0 \<le> current"
  shows "findBlockLoop fetch url s (Suc left) current = Inr (nullish (optProp block ''number'') (JStr (candidateOf current)), block)"
  using assms by (simp add: transactionsOf_truthy)

lemma findBlockLoop_below_genesis:
  "current < 0 \<Longrightarrow> findBlockLoop fetch url s left current = Inl (NoBlockWithTransactions s url)"
  by (cases left) simp_all

lemma find_first_string:
  "\<forall>x\<in>set pre. \<not> isString x \<Longrightarrow> find isString (pre @ JStr h # post) = Some (JStr h)"
  by (induction pre) simp_all

lemma extractTransactionHash_first:
  assumes "transactionsOf block = pre @ JStr h # post" "\<forall>x\<in>set pre. \<not> isString x"
  shows "extractTransactionHash block = Inr h"
proof -
  from assms(1) obtain fs where block: "block = JObj fs" "map_of fs ''transactions'' = Some (JArr (pre @ JStr h # post))"
    by (cases block) (auto simp: transactionsOf_def split: option.splits json.splits)
  then show ?thesis
    using find_first_string [OF assms(2)] by (simp add: extractTransactionHash_def)
qed

lemma findBlockLoop_exhausted:
  assumes "\<forall>i<left. int i \<le> n \<longrightarrow> (\<exists>b. getBlockByNumber fetch url (candidateOf (n - int i)) = Inr b \<and> transactionsOf b = [])"
  shows "findBlockLoop fetch url s left n = Inl (NoBlockWithTransactions s url)"
proof (cases "n < 0")
  case True
  then show ?thesis by (rule findBlockLoop_below_genesis)
next
  case False
  define k where "k = min left (nat n + 1)"
  have k: "k \<le> left" "int k \<le> n + 1"
    using False by (simp_all add: k_def)
  have "\<forall>i<k. \<exists>b. getBlockByNumber fetch url (candidateOf (n - int i)) = Inr b \<and> transactionsOf b = []"
    using assms False by (auto simp: k_def)
  from findBlockLoop_skip [OF k this]
  have step: "findBlockLoop fetch url s left n = findBlockLoop fetch url s (left - k) (n - int k)" .
  show ?thesis
  proof (cases "left \<le> nat n + 1")
    case True
    then have "left - k = 0" by (simp add: k_def)
    with step show ?thesis by simp
  next
    case False
    then have "n - int k < 0" using \<open>\<not> n < 0\<close> by (simp add: k_def)
    with step show ?thesis by (simp add: findBlockLoop_below_genesis)
  qed
qed

text \<open>
  C7.  Let the start tag parse to height \<open>n\<close>.  If the blocks at heights \<open>n\<close>, \<open>n - 1\<close>, ...,
  \<open>n - k + 1\<close> all come back without transactions and the block at height \<open>n - k\<close>, with
  \<open>k < 64\<close> and \<open>n - k\<close> not below zero, lists some, then \<open>findBlockWithTransactions\<close>
  returns that block, and \<open>extractTransactionHash\<close> of it is the first hash its transaction
  list holds: the walk goes back one block at a time and stops at the first non-empty
  one.  If every block of the 64 heights from \<open>n\<close> down (as far as they are not negative)
  comes back without transactions, the search raises.
\<close>

theorem findBlockWithTransactions_search:
  assumes "BigInt startBlock = Some n"
  shows "(k < 64 \<and> int k \<le> n
          \<and> (\<forall>i<k. \<exists>b. getBlockByNumber fetch url (candidateOf (n - int i)) = Inr b \<and> transactionsOf b = [])
          \<and> getBlockByNumber fetch url (candidateOf (n - int k)) = Inr block
          \<and> transactionsOf block = pre @ JStr h # post \<and> (\<forall>x\<in>set pre. \<not> isString x)
          \<longrightarrow> findBlockWithTransactions fetch url startBlock
                = Inr (nullish (optProp block ''number'') (JStr (candidateOf (n - int k))), block)
              \<and> extractTransactionHash block = Inr h)
       \<and> ((\<forall>i<64. int i \<le> n \<longrightarrow>
              (\<exists>b. getBlockByNumber fetch url (candidateOf (n - int i)) = Inr b \<and> transactionsOf b = []))
          \<longrightarrow> findBlockWithTransactions fetch url startBlock = Inl (NoBlockWithTransactions startBlock url))"
proof (intro conjI impI)
  assume h: "k < 64 \<and> int k \<le> n
          \<and> (\<forall>i<k. \<exists>b. getBlockByNumber fetch url (candidateOf (n - int i)) = Inr b \<and> transactionsOf b = [])
          \<and> getBlockByNumber fetch url (candidateOf (n - int k)) = Inr block
          \<and> transactionsOf block = pre @ JStr h # post \<and> (\<forall>x\<in>set pre. \<not> isString x)"
  then have k: "k \<le> 64" "int k \<le> n + 1" by simp_all
  from h have skipped: "\<forall>i<k. \<exists>b. getBlockByNumber fetch url (candidateOf (n - int i)) = Inr b \<and> transactionsOf b = []"
    by blast
  from h obtain left where left: "64 - k = Suc left"
    by (cases "64 - k") auto
  from h have hit: "getBlockByNumber fetch url (candidateOf (n - int k)) = Inr block"
    "transactionsOf block \<noteq> []" "0 \<le> n - int k" by simp_all
  have "findBlockLoop fetch url startBlock 64 n = findBlockLoop fetch url startBlock (64 - k) (n - int k)"
    by (rule findBlockLoop_skip [OF k skipped])
  also have "\<dots> = Inr (nullish (optProp block ''number'') (JStr (candidateOf (n - int k))), block)"
    unfolding left by (rule findBlockLoop_found [OF hit])
  finally show "findBlockWithTransactions fetch url startBlock
                = Inr (nullish (optProp block ''number'') (JStr (candidateOf (n - int k))), block)"
    using assms by (simp add: findBlockWithTransactions_def hexToBigInt_def)
  from h show "extractTransactionHash block = Inr h"
    by (blast intro: extractTransactionHash_first)
next
  assume "\<forall>i<64. int i \<le> n \<longrightarrow>
              (\<exists>b. getBlockByNumber fetch url (candidateOf (n - int i)) = Inr b \<and> transactionsOf b = [])"
  then have "findBlockLoop fetch url startBlock 64 n = Inl (NoBlockWithTransactions startBlock url)"
    by (rule findBlockLoop_exhausted)
  then show "findBlockWithTransactions fetch url startBlock = Inl (NoBlockWithTransactions startBlock url)"
    using assms by (simp add: findBlockWithTransactions_def hexToBigInt_def)
qed

lemmas feed_eval =
  sixBlockFeed_def emptyFeed_def okResponse_def block7_def emptyBlock_def
  getBlockByNumber_def jsonRpcRequest_def transactionsOf_def candidateOf_def
  toString_def natDigits_last natDigits_step digitChar_def
  BigInt_def trim_def isWhiteSpace_def digitString_def digitVal_def

theorem findBlockWithTransactions_search_witness:
  "findBlockWithTransactions sixBlockFeed ''http://node'' ''0xa'' = Inr (JStr ''0x7'', block7)
   \<and> extractTransactionHash block7 = Inr ''0xt1''
   \<and> findBlockWithTransactions emptyFeed ''http://node'' ''0xa''
       = Inl (NoBlockWithTransactions ''0xa'' ''http://node'')"
proof -
  have start: "BigInt ''0xa'' = Some 10"
    by (simp add: feed_eval)
  have skipped: "\<forall>i<3. \<exists>b. getBlockByNumber sixBlockFeed ''http://node'' (candidateOf (10 - int i)) = Inr b
                    \<and> transactionsOf b = []"
  proof (intro allI impI)
    fix i :: nat assume "i < 3"
    then consider "i = 0" | "i = 1" | "i = 2" by linarith
    then show "\<exists>b. getBlockByNumber sixBlockFeed ''http://node'' (candidateOf (10 - int i)) = Inr b
                    \<and> transactionsOf b = []"
      by cases (simp_all add: feed_eval)
  qed
  have hit: "getBlockByNumber sixBlockFeed ''http://node'' (candidateOf (10 - int 3)) = Inr block7"
    by (simp add: feed_eval)
  have txs: "transactionsOf block7 = [] @ JStr ''0xt1'' # [JStr ''0xt2'']"
    by (simp add: feed_eval)
  have number: "nullish (optProp block7 ''number'') (JStr (candidateOf (10 - int 3))) = JStr ''0x7''"
    by (simp add: block7_def)
  have found: "findBlockWithTransactions sixBlockFeed ''http://node'' ''0xa'' = Inr (JStr ''0x7'', block7)
      \<and> extractTransactionHash block7 = Inr ''0xt1''"
    using findBlockWithTransactions_search [OF start, of 3 sixBlockFeed "''http://node''" block7 "[]" "''0xt1''" "[JStr ''0xt2'']"]
      skipped hit txs number by simp
  have all_empty: "\<forall>i<64. int i \<le> 10 \<longrightarrow>
      (\<exists>b. getBlockByNumber emptyFeed ''http://node'' (candidateOf (10 - int i)) = Inr b \<and> transactionsOf b = [])"
    by (simp add: emptyFeed_def okResponse_def emptyBlock_def getBlockByNumber_def jsonRpcRequest_def
          transactionsOf_def candidateOf_def)
  have "findBlockWithTransactions emptyFeed ''http://node'' ''0xa''
       = Inl (NoBlockWithTransactions ''0xa'' ''http://node'')"
    using findBlockWithTransactions_search [OF start, of _ emptyFeed "''http://node''"] all_empty by blast
  with found show ?thesis by blast
qed

subsection \<open>The logs search\<close>

lemma safeGetLogs_swallows:
  "jsonRpcRequest fetch url ''eth_getLogs'' [f] = Inl e \<Longrightarrow> safeGetLogs fetch url f = []"
  by (simp add: safeGetLogs_def)

lemma findLogsLoop_step:
  assumes "0 \<le> current" "getBlockByNumber fetch url (candidateOf current) = Inr b"
    "logsOfBlock fetch url b = []"
  shows "findLogsLoop fetch url (Suc left) current = findLogsLoop fetch url left (current - 1)"
  using assms by (cases "optProp b ''hash''") (auto simp: logsOfBlock_def Let_def split: if_splits)

lemma findLogsLoop_hit:
  assumes "0 \<le> current" "getBlockByNumber fetch url (candidateOf current) = Inr b"
    "optProp b ''hash'' = Some h" "logsOfBlock fetch url b = l # ls"
  shows "findLogsLoop fetch url (Suc left) current
         = Inr (Some \<lparr>blockNumber = nullish (optProp b ''number'') (JStr (candidateOf current)),
                       request = JObj [(''blockHash'', h)], logs = l # ls\<rparr>)"
  using assms by (auto simp: logsOfBlock_def Let_def split: if_splits)

lemma findLogsLoop_below_genesis: "current < 0 \<Longrightarrow> findLogsLoop fetch url left current = Inr None"
  by (cases left) simp_all

lemma findLogsLoop_skip:
  "k \<le> left \<Longrightarrow> int k \<le> current + 1 \<Longrightarrow>
   \<forall>i<k. \<exists>b. getBlockByNumber fetch url (candidateOf (current - int i)) = Inr b \<and> logsOfBlock fetch url b = [] \<Longrightarrow>
   findLogsLoop fetch url left current = findLogsLoop fetch url (left - k) (current - int k)"
proof (induction k arbitrary: left current)
  case 0
  then show ?case by simp
next
  case (Suc k)
  then obtain left' where left: "left = Suc left'" "k \<le> left'"
    by (cases left) auto
  from Suc.prems(3) obtain b where b: "getBlockByNumber fetch url (candidateOf current) = Inr b"
      "logsOfBlock fetch url b = []"
    by fastforce
  have rest: "\<forall>i<k. \<exists>b. getBlockByNumber fetch url (candidateOf (current - 1 - int i)) = Inr b \<and> logsOfBlock fetch url b = []"
  proof (intro allI impI)
    fix i assume "i < k"
    then have "Suc i < Suc k" by simp
    with Suc.prems(3) have "\<exists>b. getBlockByNumber fetch url (candidateOf (current - int (Suc i))) = Inr b \<and> logsOfBlock fetch url b = []"
      by blast
    moreover have "current - int (Suc i) = current - 1 - int i" by simp
    ultimately show "\<exists>b. getBlockByNumber fetch url (candidateOf (current - 1 - int i)) = Inr b \<and> logsOfBlock fetch url b = []"
      by (simp only:)
  qed
  from Suc.prems(2) have nonneg: "0 \<le> current" "int k \<le> (current - 1) + 1" by simp_all
  have "findLogsLoop fetch url left current = findLogsLoop fetch url left' (current - 1)"
    unfolding left(1) by (rule findLogsLoop_step [OF nonneg(1) b])
  also have "\<dots> = findLogsLoop fetch url (left' - k) (current - 1 - int k)"
    using Suc.IH [OF left(2) nonneg(2) rest] .
  finally show ?case using left by (simp add: algebra_simps)
qed

lemma findLogsLoop_exhausted:
  assumes "\<forall>i<left. int i \<le> n \<longrightarrow> (\<exists>b. getBlockByNumber fetch url (candidateOf (n - int i)) = Inr b \<and> logsOfBlock fetch url b = [])"
  shows "findLogsLoop fetch url left n = Inr None"
proof (cases "n < 0")
  case True
  then show ?thesis by (rule findLogsLoop_below_genesis)
next
  case False
  define k where "k = min left (nat n + 1)"
  have k: "k \<le> left" "int k \<le> n + 1"
    using False by (simp_all add: k_def)
  have "\<forall>i<k. \<exists>b. getBlockByNumber fetch url (candidateOf (n - int i)) = Inr b \<and> logsOfBlock fetch url b = []"
    using assms False by (auto simp: k_def)
  from findLogsLoop_skip [OF k this]
  have step: "findLogsLoop fetch url left n = findLogsLoop fetch url (left - k) (n - int k)" .
  show ?thesis
  proof (cases "left \<le> nat n + 1")
    case True
    then have "left - k = 0" by (simp add: k_def)
    with step show ?thesis by simp
  next
    case False
    then have "n - int k < 0" using \<open>\<not> n < 0\<close> by (simp add: k_def)
    with step show ?thesis by (simp add: findLogsLoop_below_genesis)
  qed
qed

lemma findLogsCandidate_walk:
  assumes "getProp block ''hash'' = Inr (Some (JStr hash))" "hash \<noteq> []"
    "safeGetLogs fetch url (JObj [(''blockHash'', JStr hash)]) = []" "BigInt fallbackNumber = Some n"
  shows "findLogsCandidate fetch url block fallbackNumber = findLogsLoop fetch url 64 (n - 1)"
  using assms by (simp add: findLogsCandidate_def hexToBigInt_def)

text \<open>
  C8.  For a block with a non-empty string \<open>hash\<close>: a logs query that fails makes
  \<open>safeGetLogs\<close> return no entries instead of raising; when the query by the block's own
  hash has entries, \<open>findLogsCandidate\<close> returns them with that filter; when it has none
  and the fallback number parses to \<open>n\<close>, the search walks back from height \<open>n - 1\<close> one
  block at a time and returns the logs of the first fetched block that has some, within 64
  attempts; and when none of the at most 64 fetched blocks has logs, the result is
  \<open>undefined\<close> (no logs context), not an error.
\<close>

theorem findLogsCandidate_degrades:
  assumes "getProp block ''hash'' = Inr (Some (JStr hash))" and "hash \<noteq> []"
  shows "(jsonRpcRequest fetch url ''eth_getLogs'' [f] = Inl e \<longrightarrow> safeGetLogs fetch url f = [])
    \<and> (safeGetLogs fetch url (JObj [(''blockHash'', JStr hash)]) = l # ls
        \<longrightarrow> findLogsCandidate fetch url block fallbackNumber
            = Inr (Some \<lparr>blockNumber = nullish (optProp block ''number'') (JStr fallbackNumber),
                          request = JObj [(''blockHash'', JStr hash)], logs = l # ls\<rparr>))
    \<and> (safeGetLogs fetch url (JObj [(''blockHash'', JStr hash)]) = [] \<and> BigInt fallbackNumber = Some n
        \<and> k < 64 \<and> int k \<le> n - 1
        \<and> (\<forall>i<k. \<exists>b. getBlockByNumber fetch url (candidateOf (n - 1 - int i)) = Inr b
                      \<and> logsOfBlock fetch url b = [])
        \<and> getBlockByNumber fetch url (candidateOf (n - 1 - int k)) = Inr nextBlock
        \<and> optProp nextBlock ''hash'' = Some h \<and> logsOfBlock fetch url nextBlock = l # ls
        \<longrightarrow> findLogsCandidate fetch url block fallbackNumber
            = Inr (Some \<lparr>blockNumber = nullish (optProp nextBlock ''number'') (JStr (candidateOf (n - 1 - int k))),
                          request = JObj [(''blockHash'', h)], logs = l # ls\<rparr>))
    \<and> (safeGetLogs fetch url (JObj [(''blockHash'', JStr hash)]) = [] \<and> BigInt fallbackNumber = Some n
        \<and> (\<forall>i<64. int i \<le> n - 1 \<longrightarrow>
              (\<exists>b. getBlockByNumber fetch url (candidateOf (n - 1 - int i)) = Inr b
                   \<and> logsOfBlock fetch url b = []))
        \<longrightarrow> findLogsCandidate fetch url block fallbackNumber = Inr None)"
proof (intro conjI impI)
  assume "jsonRpcRequest fetch url ''eth_getLogs'' [f] = Inl e"
  then show "safeGetLogs fetch url f = []" by (rule safeGetLogs_swallows)
next
  assume "safeGetLogs fetch url (JObj [(''blockHash'', JStr hash)]) = l # ls"
  then show "findLogsCandidate fetch url block fallbackNumber
            = Inr (Some \<lparr>blockNumber = nullish (optProp block ''number'') (JStr fallbackNumber),
                          request = JObj [(''blockHash'', JStr hash)], logs = l # ls\<rparr>)"
    using assms by (simp add: findLogsCandidate_def)
next
  assume h: "safeGetLogs fetch url (JObj [(''blockHash'', JStr hash)]) = [] \<and> BigInt fallbackNumber = Some n
        \<and> k < 64 \<and> int k \<le> n - 1
        \<and> (\<forall>i<k. \<exists>b. getBlockByNumber fetch url (candidateOf (n - 1 - int i)) = Inr b
                      \<and> logsOfBlock fetch url b = [])
        \<and> getBlockByNumber fetch url (candidateOf (n - 1 - int k)) = Inr nextBlock
        \<and> optProp nextBlock ''hash'' = Some h \<and> logsOfBlock fetch url nextBlock = l # ls"
  then have walk: "findLogsCandidate fetch url block fallbackNumber = findLogsLoop fetch url 64 (n - 1)"
    using assms by (simp add: findLogsCandidate_walk)
  from h have k: "k \<le> 64" "int k \<le> (n - 1) + 1" by simp_all
  from h have skipped: "\<forall>i<k. \<exists>b. getBlockByNumber fetch url (candidateOf (n - 1 - int i)) = Inr b
                      \<and> logsOfBlock fetch url b = []"
    by blast
  from h obtain left where left: "64 - k = Suc left"
    by (cases "64 - k") auto
  from h have hit: "0 \<le> n - 1 - int k" "getBlockByNumber fetch url (candidateOf (n - 1 - int k)) = Inr nextBlock"
    "optProp nextBlock ''hash'' = Some h" "logsOfBlock fetch url nextBlock = l # ls"
    by simp_all
  have "findLogsLoop fetch url 64 (n - 1) = findLogsLoop fetch url (64 - k) (n - 1 - int k)"
    by (rule findLogsLoop_skip [OF k skipped])
  also have "\<dots> = Inr (Some \<lparr>blockNumber = nullish (optProp nextBlock ''number'') (JStr (candidateOf (n - 1 - int k))),
                          request = JObj [(''blockHash'', h)], logs = l # ls\<rparr>)"
    unfolding left by (rule findLogsLoop_hit [OF hit])
  finally show "findLogsCandidate fetch url block fallbackNumber
            = Inr (Some \<lparr>blockNumber = nullish (optProp nextBlock ''number'') (JStr (candidateOf (n - 1 - int k))),
                          request = JObj [(''blockHash'', h)], logs = l # ls\<rparr>)"
    using walk by simp
next
  assume h: "safeGetLogs fetch url (JObj [(''blockHash'', JStr hash)]) = [] \<and> BigInt fallbackNumber = Some n
        \<and> (\<forall>i<64. int i \<le> n - 1 \<longrightarrow>
              (\<exists>b. getBlockByNumber fetch url (candidateOf (n - 1 - int i)) = Inr b
                   \<and> logsOfBlock fetch url b = []))"
  then have "findLogsCandidate fetch url block fallbackNumber = findLogsLoop fetch url 64 (n - 1)"
    using assms by (simp add: findLogsCandidate_walk)
  moreover from h have "findLogsLoop fetch url 64 (n - 1) = Inr None"
    by (intro findLogsLoop_exhausted) blast
  ultimately show "findLogsCandidate fetch url block fallbackNumber = Inr None" by simp
qed

lemmas logs_eval = safeGetLogs_def logsOfBlock_def feed_eval

theorem findLogsCandidate_degrades_witness:
  "safeGetLogs emptyFeed ''http://node'' (JObj [(''blockHash'', JStr ''0xb7'')]) = []
   \<and> findLogsCandidate sixBlockFeed ''http://node'' (emptyBlock ''0x6'') ''0x6''
       = Inr (Some \<lparr>blockNumber = JStr ''0x6'', request = JObj [(''blockHash'', JStr ''0xb6'')],
                     logs = [JObj [(''address'', JStr ''0xc0''), (''topics'', JArr [])]]\<rparr>)
   \<and> findLogsCandidate sixBlockFeed ''http://node'' block7 ''0x7''
       = Inr (Some \<lparr>blockNumber = JStr ''0x6'', request = JObj [(''blockHash'', JStr ''0xb6'')],
                     logs = [JObj [(''address'', JStr ''0xc0''), (''topics'', JArr [])]]\<rparr>)
   \<and> findLogsCandidate emptyFeed ''http://node'' block7 ''0x7'' = Inr None"
proof -
  have hash7: "getProp block7 ''hash'' = Inr (Some (JStr ''0xb7''))" "''0xb7'' \<noteq> []"
    by (simp_all add: block7_def)
  have hash6: "getProp (emptyBlock ''0x6'') ''hash'' = Inr (Some (JStr ''0xb6''))" "''0xb6'' \<noteq> []"
    by (simp_all add: emptyBlock_def)
  have start: "BigInt ''0x7'' = Some 7"
    by (simp add: feed_eval)
  have rejected: "jsonRpcRequest emptyFeed ''http://node'' ''eth_getLogs'' [JObj [(''blockHash'', JStr ''0xb7'')]]
      = Inl (Thrown None)"
    by (simp add: feed_eval)
  have swallowed: "safeGetLogs emptyFeed ''http://node'' (JObj [(''blockHash'', JStr ''0xb7'')]) = []"
    using findLogsCandidate_degrades [OF hash7, where fetch = emptyFeed and url = "''http://node''"] rejected by blast
  have logs6: "safeGetLogs sixBlockFeed ''http://node'' (JObj [(''blockHash'', JStr ''0xb6'')])
      = JObj [(''address'', JStr ''0xc0''), (''topics'', JArr [])] # []"
    by (simp add: logs_eval)
  have number6: "nullish (optProp (emptyBlock ''0x6'') ''number'') (JStr ''0x6'') = JStr ''0x6''"
    by (simp add: emptyBlock_def)
  have direct: "findLogsCandidate sixBlockFeed ''http://node'' (emptyBlock ''0x6'') ''0x6''
       = Inr (Some \<lparr>blockNumber = JStr ''0x6'', request = JObj [(''blockHash'', JStr ''0xb6'')],
                     logs = [JObj [(''address'', JStr ''0xc0''), (''topics'', JArr [])]]\<rparr>)"
    using findLogsCandidate_degrades [OF hash6, where fetch = sixBlockFeed and url = "''http://node''" and fallbackNumber = "''0x6''"]
      logs6 number6 by simp
  have none7: "safeGetLogs sixBlockFeed ''http://node'' (JObj [(''blockHash'', JStr ''0xb7'')]) = []"
    by (simp add: logs_eval)
  have block6: "getBlockByNumber sixBlockFeed ''http://node'' (candidateOf (7 - 1 - int 0)) = Inr (emptyBlock ''0x6'')"
    by (simp add: feed_eval)
  have walk6: "optProp (emptyBlock ''0x6'') ''hash'' = Some (JStr ''0xb6'')"
    "logsOfBlock sixBlockFeed ''http://node'' (emptyBlock ''0x6'')
      = JObj [(''address'', JStr ''0xc0''), (''topics'', JArr [])] # []"
    "nullish (optProp (emptyBlock ''0x6'') ''number'') (JStr (candidateOf (7 - 1 - int 0))) = JStr ''0x6''"
    by (simp_all add: logs_eval)
  have walked: "findLogsCandidate sixBlockFeed ''http://node'' block7 ''0x7''
       = Inr (Some \<lparr>blockNumber = JStr ''0x6'', request = JObj [(''blockHash'', JStr ''0xb6'')],
                     logs = [JObj [(''address'', JStr ''0xc0''), (''topics'', JArr [])]]\<rparr>)"
    using findLogsCandidate_degrades [OF hash7, where fetch = sixBlockFeed and url = "''http://node''"
        and fallbackNumber = "''0x7''" and n = 7 and k = 0 and nextBlock = "emptyBlock ''0x6''"
        and h = "JStr ''0xb6''"]
      none7 start block6 walk6 by simp
  have no_logs: "\<forall>i<64. int i \<le> 7 - 1 \<longrightarrow>
      (\<exists>b. getBlockByNumber emptyFeed ''http://node'' (candidateOf (7 - 1 - int i)) = Inr b
           \<and> logsOfBlock emptyFeed ''http://node'' b = [])"
    by (simp add: emptyFeed_def okResponse_def emptyBlock_def getBlockByNumber_def jsonRpcRequest_def
          candidateOf_def logsOfBlock_def safeGetLogs_def)
  have degraded: "findLogsCandidate emptyFeed ''http://node'' block7 ''0x7'' = Inr None"
    using findLogsCandidate_degrades [OF hash7, where fetch = emptyFeed and url = "''http://node''"
        and fallbackNumber = "''0x7''" and n = 7]
      swallowed start no_logs by blast
  from swallowed direct walked degraded show ?thesis by blast
qed

subsection \<open>The overlay loader\<close>






subsection \<open>The mutation of one match\<close>

lemma spread_lookup:
  "distinct (map fst over) \<Longrightarrow>
   map_of (spread base over) name = (case map_of over name of Some v \<Rightarrow> Some v | None \<Rightarrow> map_of base name)"
proof (induction over arbitrary: base)
  case Nil
  then show ?case by (simp add: spread_def)
next
  case (Cons kv over)
  obtain k v where kv: "kv = (k, v)" by (cases kv)
  from Cons.prems kv have fresh: "map_of over k = None" and rest: "distinct (map fst over)"
    by (simp_all add: map_of_eq_None_iff)
  have "map_of (spread base (kv # over)) name = map_of (spread (AList.update k v base) over) name"
    by (simp add: spread_def kv)
  also have "\<dots> = (case map_of over name of Some v \<Rightarrow> Some v | None \<Rightarrow> map_of (AList.update k v base) name)"
    by (rule Cons.IH [OF rest])
  finally show ?case
    using fresh by (simp add: kv update_conv' split: option.split)
qed





text \<open>
  C3.  A \<open>merge\<close> action on a match whose parent is an array fails.  On a match whose parent
  is an object and whose slot holds an object, or nothing, it succeeds: the slot then
  refers to a newly allocated object; a property named in the merge payload has the
  payload's value there (the value itself, nothing is merged below the first level), and
  any other property has the value it had in the existing object.  The other properties
  of the parent and all other cells are unchanged.
\<close>

theorem applyAction_merge:
  assumes "parent m = Some p" and "parentProperty m = Some k" and "p < nextAddr h"
    and "distinct (map fst mf)"
  shows "(cells h p = Arr xs \<longrightarrow> applyAction h m (Merge t mf) = Inl (MergeIntoArray t))
       \<and> (cells h p = Obj fs
           \<and> (map_of fs (propertyName k) = None \<and> existing = []
               \<or> (\<exists>c. map_of fs (propertyName k) = Some (Ref c) \<and> cells h c = Obj existing)) \<longrightarrow>
            (\<exists>h' merged.
                applyAction h m (Merge t mf) = Inr h'
              \<and> map_of (ownProperties (cells h' p)) (propertyName k) = Some (Ref (nextAddr h))
              \<and> cells h' (nextAddr h) = Obj merged
              \<and> (\<forall>name. map_of merged name
                          = (case map_of mf name of Some v \<Rightarrow> Some v | None \<Rightarrow> map_of existing name))
              \<and> (\<forall>name. name \<noteq> propertyName k \<longrightarrow>
                    map_of (ownProperties (cells h' p)) name = map_of fs name)
              \<and> (\<forall>a. a \<noteq> p \<and> a \<noteq> nextAddr h \<longrightarrow> cells h' a = cells h a)))"
proof (intro conjI impI)
  assume "cells h p = Arr xs"
  then show "applyAction h m (Merge t mf) = Inl (MergeIntoArray t)"
    using assms by (simp add: applyAction_def)
next
  assume a: "cells h p = Obj fs
           \<and> (map_of fs (propertyName k) = None \<and> existing = []
               \<or> (\<exists>c. map_of fs (propertyName k) = Some (Ref c) \<and> cells h c = Obj existing))"
  define h1 where "h1 = snd (alloc h (Obj (spread existing mf)))"
  define h' where "h' = writeCell h1 p (Obj (AList.update (propertyName k) (Ref (nextAddr h)) fs))"
  from a have base: "(case map_of fs (propertyName k) of Some (Ref c) \<Rightarrow> ownProperties (cells h c) | _ \<Rightarrow> [])
      = existing"
    by auto
  have run: "applyAction h m (Merge t mf) = Inr h'"
    using assms(1,2) a base by (simp add: applyAction_def alloc_def h'_def h1_def Let_def)
  have neq: "p \<noteq> nextAddr h" using assms(3) by simp
  have slot: "cells h' p = Obj (AList.update (propertyName k) (Ref (nextAddr h)) fs)"
    by (simp add: h'_def writeCell_def)
  have new: "cells h' (nextAddr h) = Obj (spread existing mf)"
    using neq by (simp add: h'_def h1_def writeCell_def alloc_def)
  have frame: "\<forall>a. a \<noteq> p \<and> a \<noteq> nextAddr h \<longrightarrow> cells h' a = cells h a"
    by (simp add: h'_def h1_def writeCell_def alloc_def)
  have union: "\<forall>name. map_of (spread existing mf) name
                          = (case map_of mf name of Some v \<Rightarrow> Some v | None \<Rightarrow> map_of existing name)"
    using spread_lookup [OF assms(4)] by blast
  show "\<exists>h' merged.
                applyAction h m (Merge t mf) = Inr h'
              \<and> map_of (ownProperties (cells h' p)) (propertyName k) = Some (Ref (nextAddr h))
              \<and> cells h' (nextAddr h) = Obj merged
              \<and> (\<forall>name. map_of merged name
                          = (case map_of mf name of Some v \<Rightarrow> Some v | None \<Rightarrow> map_of existing name))
              \<and> (\<forall>name. name \<noteq> propertyName k \<longrightarrow>
                    map_of (ownProperties (cells h' p)) name = map_of fs name)
              \<and> (\<forall>a. a \<noteq> p \<and> a \<noteq> nextAddr h \<longrightarrow> cells h' a = cells h a)"
    using run slot new frame union
    by (intro exI [of _ h'] exI [of _ "spread existing mf"]) (simp add: update_conv')
qed

theorem applyAction_merge_witness:
  "applyAction sampleStore \<lparr>parent = Some 2, parentProperty = Some (Index 0), matchValue = String ''a''\<rparr>
     (Merge ''$.servers[0]'' [(''url'', String ''http://node'')])
   = Inl (MergeIntoArray ''$.servers[0]'')
   \<and> (\<exists>h' merged.
        applyAction sampleStore \<lparr>parent = Some 0, parentProperty = Some (Name ''info''), matchValue = Ref 1\<rparr>
          (Merge ''$.info'' [(''version'', String ''2''), (''license'', String ''MIT'')]) = Inr h'
        \<and> map_of (ownProperties (cells h' 0)) ''info'' = Some (Ref 3)
        \<and> cells h' 3 = Obj merged
        \<and> map_of merged ''title'' = Some (String ''RPC'')
        \<and> map_of merged ''version'' = Some (String ''2'')
        \<and> map_of merged ''license'' = Some (String ''MIT'')
        \<and> cells h' 1 = cells sampleStore 1)"
proof -
  let ?arrMatch = "\<lparr>parent = Some 2, parentProperty = Some (Index 0), matchValue = String ''a''\<rparr>"
  let ?objMatch = "\<lparr>parent = Some 0, parentProperty = Some (Name ''info''), matchValue = Ref 1\<rparr>"
  let ?mf = "[(''version'', String ''2''), (''license'', String ''MIT'')]"
  have arr: "parent ?arrMatch = Some 2" "parentProperty ?arrMatch = Some (Index 0)" "2 < nextAddr sampleStore"
    "distinct (map fst [(''url'', String ''http://node'')])"
    "cells sampleStore 2 = Arr [String ''a'', String ''b'', String ''c'']"
    by (simp_all add: sampleStore_def)
  have first: "applyAction sampleStore ?arrMatch (Merge ''$.servers[0]'' [(''url'', String ''http://node'')])
      = Inl (MergeIntoArray ''$.servers[0]'')"
    using applyAction_merge [OF arr(1-4), where xs = "[String ''a'', String ''b'', String ''c'']"] arr(5)
    by blast
  have obj: "parent ?objMatch = Some 0" "parentProperty ?objMatch = Some (Name ''info'')"
    "0 < nextAddr sampleStore" "distinct (map fst ?mf)"
    by (simp_all add: sampleStore_def)
  have cur: "cells sampleStore 0 = Obj [(''info'', Ref 1), (''servers'', Ref 2), (''openrpc'', String ''1.2.6'')]
      \<and> (map_of [(''info'', Ref 1), (''servers'', Ref 2), (''openrpc'', String ''1.2.6'')] (propertyName (Name ''info'')) = None
           \<and> [(''title'', String ''RPC''), (''version'', String ''1'')] = []
          \<or> (\<exists>c. map_of [(''info'', Ref 1), (''servers'', Ref 2), (''openrpc'', String ''1.2.6'')] (propertyName (Name ''info''))
                = Some (Ref c)
              \<and> cells sampleStore c = Obj [(''title'', String ''RPC''), (''version'', String ''1'')]))"
    by (simp add: sampleStore_def)
  from applyAction_merge [OF obj, where t = "''$.info''"] cur
  obtain h' merged where r:
    "applyAction sampleStore ?objMatch (Merge ''$.info'' ?mf) = Inr h'"
    "map_of (ownProperties (cells h' 0)) (propertyName (Name ''info'')) = Some (Ref (nextAddr sampleStore))"
    "cells h' (nextAddr sampleStore) = Obj merged"
    "\<forall>name. map_of merged name
        = (case map_of ?mf name of Some v \<Rightarrow> Some v
           | None \<Rightarrow> map_of [(''title'', String ''RPC''), (''version'', String ''1'')] name)"
    "\<forall>a. a \<noteq> 0 \<and> a \<noteq> nextAddr sampleStore \<longrightarrow> cells h' a = cells sampleStore a"
    by blast
  have three: "nextAddr sampleStore = 3" by (simp add: sampleStore_def)
  from r(4) have "map_of merged ''title'' = Some (String ''RPC'')"
    "map_of merged ''version'' = Some (String ''2'')" "map_of merged ''license'' = Some (String ''MIT'')"
    by simp_all
  moreover from r(5) three have "cells h' 1 = cells sampleStore 1" by simp
  ultimately show ?thesis
    using first r(1-3) three by auto
qed

subsection \<open>The action loop\<close>

lemma applyJsonPathOverlay_append:
  "applyJsonPathOverlay J h doc earlier = (h1, Inr d) \<Longrightarrow>
   applyJsonPathOverlay J h doc (earlier @ rest) = applyJsonPathOverlay J h1 doc rest"
proof (induction earlier arbitrary: h)
  case Nil
  then show ?case by simp
next
  case (Cons a earlier)
  then show ?case
    by (auto split: sum.splits prod.splits option.splits)
qed

text \<open>
  C4.  When the actions before one action apply without error and leave the store \<open>h1\<close>,
  and that action's target matches nothing in \<open>h1\<close>, \<open>applyJsonPathOverlay\<close> raises the
  no-match error for that target and leaves the store \<open>h1\<close>: the earlier writes stay, and
  the outcome does not depend on the actions after it.
\<close>

theorem applyJsonPathOverlay_fail_fast:
  assumes "applyJsonPathOverlay J h doc earlier = (h1, Inr d)"
    and "J h1 doc (target action) = Inr []"
  shows "applyJsonPathOverlay J h doc (earlier @ action # later) = (h1, Inl (NoMatch (target action)))"
proof -
  have "applyJsonPathOverlay J h doc (earlier @ action # later)
      = applyJsonPathOverlay J h1 doc (action # later)"
    using assms(1) by (rule applyJsonPathOverlay_append)
  also have "\<dots> = (h1, Inl (NoMatch (target action)))"
    using assms(2) by (simp add: selectNodes_def)
  finally show ?thesis .
qed

lemmas store_eval =
  sampleStore_def childPath_def selectNodes_def applyAction_def writeCell_def alloc_def

theorem applyJsonPathOverlay_fail_fast_witness:
  "applyJsonPathOverlay childPath sampleStore (Ref 0)
     ([Set ''$.openrpc'' (String ''1.3.0'')] @ Remove ''$.methods'' # [Remove ''$.info''])
   = (writeCell sampleStore 0
        (Obj [(''info'', Ref 1), (''servers'', Ref 2), (''openrpc'', String ''1.3.0'')]),
      Inl (NoMatch ''$.methods''))"
proof -
  let ?h1 = "writeCell sampleStore 0
        (Obj [(''info'', Ref 1), (''servers'', Ref 2), (''openrpc'', String ''1.3.0'')])"
  have earlier: "applyJsonPathOverlay childPath sampleStore (Ref 0) [Set ''$.openrpc'' (String ''1.3.0'')]
      = (?h1, Inr (Ref 0))"
    by (simp add: store_eval)
  have unmatched: "childPath ?h1 (Ref 0) (target (Remove ''$.methods'' :: jsval OverlayAction)) = Inr []"
    by (simp add: store_eval)
  show ?thesis
    using applyJsonPathOverlay_fail_fast [OF earlier unmatched, of "[Remove ''$.info'']"] by simp
qed

subsection \<open>Copy isolation\<close>

lemma inRegion_mono: "inRegion n h v \<Longrightarrow> nextAddr h \<le> nextAddr h' \<Longrightarrow> inRegion n h' v"
  by (auto simp: inRegion_def)

lemma inRegion_primitive [simp]:
  "inRegion n h Undefined" "inRegion n h Null" "inRegion n h (Boolean b)"
  "inRegion n h (Number i)" "inRegion n h (String s)"
  by (simp_all add: inRegion_def)

lemma confinedI:
  assumes "confined n h" and "nextAddr h \<le> nextAddr h'"
    and "\<And>a. n \<le> a \<Longrightarrow> a < nextAddr h' \<Longrightarrow>
           (a < nextAddr h \<and> cells h' a = cells h a)
           \<or> (\<forall>v\<in>set (cellValues (cells h' a)). inRegion n h' v)"
  shows "confined n h'"
  unfolding confined_def
proof (intro allI impI ballI)
  fix a v assume a: "n \<le> a \<and> a < nextAddr h'" and v: "v \<in> set (cellValues (cells h' a))"
  from assms(3) [of a] a consider "a < nextAddr h \<and> cells h' a = cells h a"
    | "\<forall>v\<in>set (cellValues (cells h' a)). inRegion n h' v" by blast
  then show "inRegion n h' v"
  proof cases
    case 1
    with assms(1) a v have "inRegion n h v" by (auto simp: confined_def)
    then show ?thesis using assms(2) by (rule inRegion_mono)
  next
    case 2
    with v show ?thesis by blast
  qed
qed

lemma alloc_region:
  assumes "alloc h c = (a, h')" and "n \<le> nextAddr h" and "confined n h"
    and "\<forall>v\<in>set (cellValues c). inRegion n h v"
  shows "nextAddr h' = Suc (nextAddr h)" and "a = nextAddr h" and "\<forall>b<nextAddr h. cells h' b = cells h b"
    and "confined n h'" and "inRegion n h' (Ref a)" and "cells h' a = c"
proof -
  from assms(1) have h': "h' = \<lparr>cells = (cells h)(nextAddr h := c), nextAddr = Suc (nextAddr h)\<rparr>"
    and a: "a = nextAddr h"
    by (auto simp: alloc_def)
  show "nextAddr h' = Suc (nextAddr h)" "a = nextAddr h" "\<forall>b<nextAddr h. cells h' b = cells h b"
    "cells h' a = c"
    by (simp_all add: h' a)
  show "inRegion n h' (Ref a)"
    using assms(2) by (simp add: inRegion_def h' a)
  show "confined n h'"
  proof (rule confinedI [OF assms(3)])
    show "nextAddr h \<le> nextAddr h'" by (simp add: h')
    fix b assume "n \<le> b" "b < nextAddr h'"
    show "(b < nextAddr h \<and> cells h' b = cells h b) \<or> (\<forall>v\<in>set (cellValues (cells h' b)). inRegion n h' v)"
    proof (cases "b = nextAddr h")
      case True
      then have "cells h' b = c" by (simp add: h')
      moreover have "\<forall>v\<in>set (cellValues c). inRegion n h' v"
        using assms(4) by (auto intro: inRegion_mono simp: h')
      ultimately show ?thesis by simp
    next
      case False
      with \<open>b < nextAddr h'\<close> show ?thesis by (simp add: h')
    qed
  qed
qed

lemma parse_region:
  "parseValue t h = (v, h') \<Longrightarrow> n \<le> nextAddr h \<Longrightarrow> confined n h \<Longrightarrow>
     nextAddr h \<le> nextAddr h' \<and> (\<forall>a<nextAddr h. cells h' a = cells h a) \<and> confined n h' \<and> inRegion n h' v"
  "parseElements ts h = (xs, h') \<Longrightarrow> n \<le> nextAddr h \<Longrightarrow> confined n h \<Longrightarrow>
     nextAddr h \<le> nextAddr h' \<and> (\<forall>a<nextAddr h. cells h' a = cells h a) \<and> confined n h'
     \<and> (\<forall>x\<in>set xs. inRegion n h' x)"
  "parseMembers ms h = (fs, h') \<Longrightarrow> n \<le> nextAddr h \<Longrightarrow> confined n h \<Longrightarrow>
     nextAddr h \<le> nextAddr h' \<and> (\<forall>a<nextAddr h. cells h' a = cells h a) \<and> confined n h'
     \<and> (\<forall>x\<in>set (map snd fs). inRegion n h' x)"
proof (induction t h and ts h and ms h arbitrary: v h' and xs h' and fs h'
    rule: parseValue_parseElements_parseMembers.induct)
  case (5 ts h)
  obtain xs h1 where p: "parseElements ts h = (xs, h1)" by (cases "parseElements ts h")
  obtain a h2 where al: "alloc h1 (Arr xs) = (a, h2)" by (cases "alloc h1 (Arr xs)")
  from "5.prems"(1) p al have res: "v = Ref a" "h' = h2" by simp_all
  from "5.IH" [OF p "5.prems"(2,3)]
  have ih: "nextAddr h \<le> nextAddr h1" "\<forall>a<nextAddr h. cells h1 a = cells h a" "confined n h1"
    "\<forall>x\<in>set xs. inRegion n h1 x" by simp_all
  have n1: "n \<le> nextAddr h1" using "5.prems"(2) ih(1) by simp
  have vals: "\<forall>v\<in>set (cellValues (Arr xs)). inRegion n h1 v" using ih(4) by simp
  note A = alloc_region [OF al n1 ih(3) vals]
  show ?case
    using A ih(1,2) by (simp add: res)
next
  case (6 ms h)
  obtain fs h1 where p: "parseMembers ms h = (fs, h1)" by (cases "parseMembers ms h")
  obtain a h2 where al: "alloc h1 (Obj fs) = (a, h2)" by (cases "alloc h1 (Obj fs)")
  from "6.prems"(1) p al have res: "v = Ref a" "h' = h2" by simp_all
  from "6.IH" [OF p "6.prems"(2,3)]
  have ih: "nextAddr h \<le> nextAddr h1" "\<forall>a<nextAddr h. cells h1 a = cells h a" "confined n h1"
    "\<forall>x\<in>set (map snd fs). inRegion n h1 x" by simp_all
  have n1: "n \<le> nextAddr h1" using "6.prems"(2) ih(1) by simp
  have vals: "\<forall>v\<in>set (cellValues (Obj fs)). inRegion n h1 v" using ih(4) by simp
  note A = alloc_region [OF al n1 ih(3) vals]
  show ?case
    using A ih(1,2) by (simp add: res)
next
  case (8 t ts h)
  obtain x h1 where p1: "parseValue t h = (x, h1)" by (cases "parseValue t h")
  obtain ys h2 where p2: "parseElements ts h1 = (ys, h2)" by (cases "parseElements ts h1")
  from "8.prems"(1) p1 p2 have res: "xs = x # ys" "h' = h2" by simp_all
  from "8.IH"(1) [OF p1 "8.prems"(2,3)]
  have ih1: "nextAddr h \<le> nextAddr h1" "\<forall>a<nextAddr h. cells h1 a = cells h a" "confined n h1"
    "inRegion n h1 x" by simp_all
  have n1: "n \<le> nextAddr h1" using "8.prems"(2) ih1(1) by simp
  from "8.IH"(2) [OF p1 [symmetric] p2 n1 ih1(3)]
  have ih2: "nextAddr h1 \<le> nextAddr h2" "\<forall>a<nextAddr h1. cells h2 a = cells h1 a" "confined n h2"
    "\<forall>x\<in>set ys. inRegion n h2 x" by simp_all
  have "inRegion n h2 x" using ih1(4) ih2(1) by (rule inRegion_mono)
  then show ?case
    using ih1(1,2) ih2 by (simp add: res)
next
  case (10 k t ms h)
  obtain x h1 where p1: "parseValue t h = (x, h1)" by (cases "parseValue t h")
  obtain gs h2 where p2: "parseMembers ms h1 = (gs, h2)" by (cases "parseMembers ms h1")
  from "10.prems"(1) p1 p2 have res: "fs = (k, x) # gs" "h' = h2" by simp_all
  from "10.IH"(1) [OF p1 "10.prems"(2,3)]
  have ih1: "nextAddr h \<le> nextAddr h1" "\<forall>a<nextAddr h. cells h1 a = cells h a" "confined n h1"
    "inRegion n h1 x" by simp_all
  have n1: "n \<le> nextAddr h1" using "10.prems"(2) ih1(1) by simp
  from "10.IH"(2) [OF p1 [symmetric] p2 n1 ih1(3)]
  have ih2: "nextAddr h1 \<le> nextAddr h2" "\<forall>a<nextAddr h1. cells h2 a = cells h1 a" "confined n h2"
    "\<forall>x\<in>set (map snd gs). inRegion n h2 x" by simp_all
  have "inRegion n h2 x" using ih1(4) ih2(1) by (rule inRegion_mono)
  then show ?case
    using ih1(1,2) ih2 by (simp add: res)
qed auto

lemma actionIn_mono: "actionIn n h a \<Longrightarrow> nextAddr h \<le> nextAddr h' \<Longrightarrow> actionIn n h' a"
  by (cases a) (auto intro: inRegion_mono)

lemma internAction_region:
  assumes "internAction a h = (a', h')" and "n \<le> nextAddr h" and "confined n h"
  shows "nextAddr h \<le> nextAddr h' \<and> (\<forall>b<nextAddr h. cells h' b = cells h b) \<and> confined n h'
         \<and> actionIn n h' a'"
proof (cases a)
  case (Set t v)
  obtain x h1 where p: "parseValue v h = (x, h1)" by (cases "parseValue v h")
  with assms(1) Set have "a' = Set t x" "h' = h1" by simp_all
  with parse_region(1) [OF p assms(2,3)] show ?thesis by simp
next
  case (Merge t m)
  obtain fs h1 where p: "parseMembers m h = (fs, h1)" by (cases "parseMembers m h")
  with assms(1) Merge have "a' = Merge t fs" "h' = h1" by simp_all
  with parse_region(3) [OF p assms(2,3)] show ?thesis by simp
next
  case (Remove t)
  with assms show ?thesis by auto
qed

lemma internActions_region:
  "internActions as h = (as', h') \<Longrightarrow> n \<le> nextAddr h \<Longrightarrow> confined n h \<Longrightarrow>
   nextAddr h \<le> nextAddr h' \<and> (\<forall>b<nextAddr h. cells h' b = cells h b) \<and> confined n h'
   \<and> (\<forall>a\<in>set as'. actionIn n h' a)"
proof (induction as arbitrary: h as' h')
  case Nil
  then show ?case by simp
next
  case (Cons a as)
  obtain a' h1 where p1: "internAction a h = (a', h1)" by (cases "internAction a h")
  obtain bs h2 where p2: "internActions as h1 = (bs, h2)" by (cases "internActions as h1")
  from Cons.prems(1) p1 p2 have res: "as' = a' # bs" "h' = h2" by simp_all
  from internAction_region [OF p1 Cons.prems(2,3)]
  have s1: "nextAddr h \<le> nextAddr h1" "\<forall>b<nextAddr h. cells h1 b = cells h b" "confined n h1"
    "actionIn n h1 a'" by simp_all
  have n1: "n \<le> nextAddr h1" using Cons.prems(2) s1(1) by simp
  from Cons.IH [OF p2 n1 s1(3)]
  have s2: "nextAddr h1 \<le> nextAddr h2" "\<forall>b<nextAddr h1. cells h2 b = cells h1 b" "confined n h2"
    "\<forall>a\<in>set bs. actionIn n h2 a" by simp_all
  have "actionIn n h2 a'" using s1(4) s2(1) by (rule actionIn_mono)
  then show ?case using s1(1,2) s2 by (simp add: res)
qed

lemma reach_region:
  assumes "confined n h" and "inRegion n h v" and "a \<in> reach h v"
  shows "n \<le> a \<and> a < nextAddr h"
  using assms(3)
proof induction
  case (root a)
  with assms(2) show ?case by (simp add: inRegion_def)
next
  case (step a b)
  with assms(1) have "inRegion n h (Ref b)" by (auto simp: confined_def)
  then show ?case by (simp add: inRegion_def)
qed

lemma update_values: "set (map snd (AList.update k v fs)) \<subseteq> insert v (set (map snd fs))"
  by (induction fs) auto

lemma delete_values: "set (map snd (AList.delete k fs)) \<subseteq> set (map snd fs)"
  by (induction fs) auto

lemma spread_values: "set (map snd (spread base m)) \<subseteq> set (map snd base) \<union> set (map snd m)"
proof (induction m arbitrary: base)
  case Nil
  then show ?case by (simp add: spread_def)
next
  case (Cons kv m)
  obtain k v where kv: "kv = (k, v)" by (cases kv)
  have "spread base (kv # m) = spread (AList.update k v base) m"
    by (simp add: spread_def kv)
  with Cons.IH [of "AList.update k v base"] update_values [of k v base] show ?case
    by (auto simp: kv)
qed

lemma ownProperties_values: "set (map snd (ownProperties c)) \<subseteq> set (cellValues c)"
  by (cases c) (auto dest: set_zip_rightD)

lemma splice1_values: "set (splice1 i xs) \<subseteq> set xs"
  by (auto simp: splice1_def Let_def dest: in_set_takeD in_set_dropD)

lemma setIndex_values: "set (setIndex i v xs) \<subseteq> insert v (insert Undefined (set xs))"
  by (cases i) (auto simp: setIndex_def dest: set_update_subset_insert [THEN subsetD])

lemma writeCell_region:
  assumes "confined n h" and "n \<le> p" and "p < nextAddr h"
    and "\<forall>v\<in>set (cellValues c). inRegion n h v"
  shows "nextAddr (writeCell h p c) = nextAddr h" and "\<forall>b<n. cells (writeCell h p c) b = cells h b"
    and "confined n (writeCell h p c)"
proof -
  show "nextAddr (writeCell h p c) = nextAddr h" by (simp add: writeCell_def)
  show "\<forall>b<n. cells (writeCell h p c) b = cells h b" using assms(2) by (simp add: writeCell_def)
  show "confined n (writeCell h p c)"
  proof (rule confinedI [OF assms(1)])
    show "nextAddr h \<le> nextAddr (writeCell h p c)" by (simp add: writeCell_def)
    fix a assume "n \<le> a" "a < nextAddr (writeCell h p c)"
    then show "(a < nextAddr h \<and> cells (writeCell h p c) a = cells h a)
        \<or> (\<forall>v\<in>set (cellValues (cells (writeCell h p c) a)). inRegion n (writeCell h p c) v)"
      using assms(4) by (cases "a = p") (auto simp: writeCell_def inRegion_def)
  qed
qed

lemma cell_values_inRegion:
  "confined n h \<Longrightarrow> n \<le> p \<Longrightarrow> p < nextAddr h \<Longrightarrow> v \<in> set (cellValues (cells h p)) \<Longrightarrow> inRegion n h v"
  by (auto simp: confined_def)

lemma applyAction_region:
  assumes run: "applyAction h m act = Inr h'" and par: "parent m = Some p"
    and p: "n \<le> p" "p < nextAddr h" and conf: "confined n h" and act: "actionIn n h act"
  shows "nextAddr h \<le> nextAddr h' \<and> (\<forall>b<n. cells h' b = cells h b) \<and> confined n h'"
proof -
  from run par obtain k where k: "parentProperty m = Some k"
    by (cases "parentProperty m") (auto simp: applyAction_def)
  note old = cell_values_inRegion [OF conf p]
  show ?thesis
  proof (cases act)
    case (Remove t)
    show ?thesis
    proof (cases "cells h p")
      case (Arr xs)
      have vals: "\<forall>v\<in>set (cellValues (Arr (splice1 (toNumber k) xs))). inRegion n h v"
        using old [unfolded Arr cellValues.simps] splice1_values [of "toNumber k" xs]
        by (simp only: cellValues.simps) blast
      from run have "h' = writeCell h p (Arr (splice1 (toNumber k) xs))"
        by (simp add: applyAction_def par k Remove Arr)
      with writeCell_region [OF conf p vals] show ?thesis by simp
    next
      case (Obj fs)
      have vals: "\<forall>v\<in>set (cellValues (Obj (AList.delete (propertyName k) fs))). inRegion n h v"
        using old [unfolded Obj cellValues.simps] delete_values [of "propertyName k" fs]
        by (simp only: cellValues.simps) blast
      from run have "h' = writeCell h p (Obj (AList.delete (propertyName k) fs))"
        by (simp add: applyAction_def par k Remove Obj)
      with writeCell_region [OF conf p vals] show ?thesis by simp
    qed
  next
    case (Set t v)
    with act have v: "inRegion n h v" by simp
    show ?thesis
    proof (cases "cells h p")
      case (Arr xs)
      have vals: "\<forall>x\<in>set (cellValues (Arr (setIndex (toNumber k) v xs))). inRegion n h x"
        using old [unfolded Arr cellValues.simps] v setIndex_values [of "toNumber k" v xs]
          inRegion_primitive(1) [of n h]
        by (simp only: cellValues.simps) blast
      from run have "h' = writeCell h p (Arr (setIndex (toNumber k) v xs))"
        by (simp add: applyAction_def par k Set Arr)
      with writeCell_region [OF conf p vals] show ?thesis by simp
    next
      case (Obj fs)
      have vals: "\<forall>x\<in>set (cellValues (Obj (AList.update (propertyName k) v fs))). inRegion n h x"
        using old [unfolded Obj cellValues.simps] v update_values [of "propertyName k" v fs]
        by (simp only: cellValues.simps) blast
      from run have "h' = writeCell h p (Obj (AList.update (propertyName k) v fs))"
        by (simp add: applyAction_def par k Set Obj)
      with writeCell_region [OF conf p vals] show ?thesis by simp
    qed
  next
    case (Merge t mf)
    with act have mf: "\<forall>v\<in>set (map snd mf). inRegion n h v" by simp
    show ?thesis
    proof (cases "cells h p")
      case (Arr xs)
      with run show ?thesis by (simp add: applyAction_def par k Merge)
    next
      case (Obj fs)
      define base where
        "base = (case map_of fs (propertyName k) of Some (Ref c) \<Rightarrow> ownProperties (cells h c) | _ \<Rightarrow> [])"
      have base_in: "\<forall>v\<in>set (map snd base). inRegion n h v"
      proof (cases "\<exists>c. map_of fs (propertyName k) = Some (Ref c)")
        case True
        then obtain c where c: "map_of fs (propertyName k) = Some (Ref c)" by blast
        then have "Ref c \<in> set (cellValues (cells h p))"
          using Obj by (auto dest: map_of_SomeD intro: rev_image_eqI)
        then have "inRegion n h (Ref c)" by (rule old)
        then have cr: "n \<le> c" "c < nextAddr h" by (simp_all add: inRegion_def)
        have "base = ownProperties (cells h c)" by (simp add: base_def c)
        then show ?thesis
          using cell_values_inRegion [OF conf cr] ownProperties_values [of "cells h c"] by blast
      next
        case False
        then have "base = []"
          by (auto simp: base_def split: option.split jsval.split)
        then show ?thesis by simp
      qed
      obtain a h1 where al: "alloc h (Obj (spread base mf)) = (a, h1)"
        by (cases "alloc h (Obj (spread base mf))")
      have newvals: "\<forall>v\<in>set (cellValues (Obj (spread base mf))). inRegion n h v"
        using base_in mf spread_values [of base mf]
        by (simp only: cellValues.simps) blast
      have n0: "n \<le> nextAddr h" using p by simp
      note A = alloc_region [OF al n0 conf newvals]
      have p1: "p < nextAddr h1" using A(1) p(2) by simp
      have same: "cells h1 p = cells h p" using A(3) p(2) by simp
      have vals: "\<forall>x\<in>set (cellValues (Obj (AList.update (propertyName k) (Ref a) fs))). inRegion n h1 x"
      proof
        fix x assume "x \<in> set (cellValues (Obj (AList.update (propertyName k) (Ref a) fs)))"
        then have "x \<in> set (map snd (AList.update (propertyName k) (Ref a) fs))"
          by (simp only: cellValues.simps)
        with update_values [of "propertyName k" "Ref a" fs]
        have "x = Ref a \<or> x \<in> set (map snd fs)" by blast
        then have "x = Ref a \<or> x \<in> set (cellValues (cells h p))"
          by (simp only: Obj cellValues.simps)
        then show "inRegion n h1 x"
        proof
          assume "x = Ref a" with A(5) show ?thesis by simp
        next
          assume "x \<in> set (cellValues (cells h p))"
          then have "inRegion n h x" by (rule old)
          then show ?thesis by (rule inRegion_mono) (simp add: A(1))
        qed
      qed
      from run have "h' = writeCell h1 p (Obj (AList.update (propertyName k) (Ref a) fs))"
        using al by (simp add: applyAction_def par k Merge Obj base_def)
      moreover have "\<forall>b<n. cells h1 b = cells h b" using A(3) n0 by simp
      ultimately show ?thesis
        using writeCell_region [OF A(4) p(1) p1 vals] A(1) by simp
    qed
  qed
qed

lemma applyMatches_region:
  "applyMatches h ms act = (h', r) \<Longrightarrow>
   \<forall>m\<in>set ms. \<forall>p. parent m = Some p \<longrightarrow> n \<le> p \<and> p < nextAddr h \<Longrightarrow>
   confined n h \<Longrightarrow> actionIn n h act \<Longrightarrow>
   nextAddr h \<le> nextAddr h' \<and> (\<forall>b<n. cells h' b = cells h b) \<and> confined n h'"
proof (induction ms arbitrary: h)
  case Nil
  then show ?case by simp
next
  case (Cons m ms)
  show ?case
  proof (cases "applyAction h m act")
    case (Inl e)
    with Cons.prems show ?thesis by simp
  next
    case (Inr h1)
    then obtain p where par: "parent m = Some p"
      by (cases "parent m") (auto simp: applyAction_def)
    with Cons.prems(2) have p: "n \<le> p" "p < nextAddr h" by simp_all
    from applyAction_region [OF Inr par p Cons.prems(3,4)]
    have s1: "nextAddr h \<le> nextAddr h1" "\<forall>b<n. cells h1 b = cells h b" "confined n h1" by simp_all
    have rest: "\<forall>m\<in>set ms. \<forall>p. parent m = Some p \<longrightarrow> n \<le> p \<and> p < nextAddr h1"
      using Cons.prems(2) s1(1) by fastforce
    have run: "applyMatches h1 ms act = (h', r)" using Cons.prems(1) Inr by simp
    from Cons.IH [OF run rest s1(3) actionIn_mono [OF Cons.prems(4) s1(1)]] s1(1,2)
    show ?thesis by simp
  qed
qed

lemma applyJsonPathOverlay_region:
  assumes J: "matchesWithin J"
  shows "applyJsonPathOverlay J h doc acts = (h', out) \<Longrightarrow> confined n h \<Longrightarrow> inRegion n h doc \<Longrightarrow>
   \<forall>a\<in>set acts. actionIn n h a \<Longrightarrow>
   nextAddr h \<le> nextAddr h' \<and> (\<forall>b<n. cells h' b = cells h b) \<and> (\<forall>v. out = Inr v \<longrightarrow> v = doc)"
proof (induction acts arbitrary: h)
  case Nil
  then show ?case by auto
next
  case (Cons a acts)
  show ?case
  proof (cases "selectNodes J h doc (target a)")
    case (Inl e)
    with Cons.prems show ?thesis by auto
  next
    case (Inr ms)
    then have found: "J h doc (target a) = Inr ms"
      by (auto simp: selectNodes_def split: sum.splits if_splits)
    have parents: "\<forall>m\<in>set ms. \<forall>p. parent m = Some p \<longrightarrow> n \<le> p \<and> p < nextAddr h"
    proof (intro ballI allI impI)
      fix m p assume "m \<in> set ms" "parent m = Some p"
      with J found have "p \<in> reach h doc" by (auto simp: matchesWithin_def)
      with Cons.prems(2,3) show "n \<le> p \<and> p < nextAddr h" by (rule reach_region)
    qed
    obtain h1 r where am: "applyMatches h ms a = (h1, r)" by (cases "applyMatches h ms a")
    from Cons.prems(4) have a_in: "actionIn n h a" by simp
    from applyMatches_region [OF am parents Cons.prems(2) a_in]
    have s1: "nextAddr h \<le> nextAddr h1" "\<forall>b<n. cells h1 b = cells h b" "confined n h1" by simp_all
    show ?thesis
    proof (cases r)
      case (Some e)
      with Cons.prems(1) Inr am s1 show ?thesis by auto
    next
      case None
      with Cons.prems(1) Inr am have run: "applyJsonPathOverlay J h1 doc acts = (h', out)" by simp
      have doc1: "inRegion n h1 doc" using Cons.prems(3) s1(1) by (rule inRegion_mono)
      have acts1: "\<forall>a\<in>set acts. actionIn n h1 a"
        using Cons.prems(4) s1(1) by (auto intro: actionIn_mono)
      from Cons.IH [OF run s1(3) doc1 acts1] s1(1,2) show ?thesis by simp
    qed
  qed
qed

lemma confined_top: "confined (nextAddr h) h"
  unfolding confined_def by (intro allI impI) linarith

lemma stringify_container:
  "stringifyValue depth h (Ref a) = Inr (Some t) \<Longrightarrow> (\<exists>ts. t = JArr ts) \<or> (\<exists>ms. t = JObj ms)"
  by (cases depth) (auto split: cell.splits sum.splits)

lemma parse_container:
  assumes "parseValue t h = (v, h')" and "(\<exists>ts. t = JArr ts) \<or> (\<exists>ms. t = JObj ms)"
  shows "\<exists>r. v = Ref r \<and> nextAddr h \<le> r \<and> r < nextAddr h'"
proof -
  from parse_region(1) [OF assms(1) order_refl confined_top]
  have "inRegion (nextAddr h) h' v" by simp
  moreover from assms obtain r where "v = Ref r"
    by (auto split: prod.splits simp: alloc_def)
  ultimately show ?thesis by (simp add: inRegion_def)
qed

lemma applyJsonPathOverlay_returns_argument:
  "applyJsonPathOverlay J h doc acts = (h', Inr v) \<Longrightarrow> v = doc"
  by (induction acts arbitrary: h) (auto split: sum.splits prod.splits option.splits)

lemma clone_region:
  assumes "clone h (Ref d) = Inr (copy, h')" and "n \<le> nextAddr h" and "confined n h"
  shows "nextAddr h \<le> nextAddr h'" and "\<forall>a<nextAddr h. cells h' a = cells h a" and "confined n h'"
    and "inRegion n h' copy" and "\<exists>r. copy = Ref r \<and> nextAddr h \<le> r \<and> r < nextAddr h'"
proof -
  from assms(1) obtain t where t: "stringifyValue (nextAddr h) h (Ref d) = Inr (Some t)"
      and p: "parseValue t h = (copy, h')"
    by (auto simp: clone_def JSON_stringify_def split: sum.splits option.splits)
  from parse_region(1) [OF p assms(2,3)]
  show "nextAddr h \<le> nextAddr h'" "\<forall>a<nextAddr h. cells h' a = cells h a" "confined n h'"
    "inRegion n h' copy" by simp_all
  from parse_container [OF p stringify_container [OF t]]
  show "\<exists>r. copy = Ref r \<and> nextAddr h \<le> r \<and> r < nextAddr h'" .
qed

text \<open>
  C1 (amended).  Let the path library report only parents reachable from the value it
  queries, and let the document be an allocated object.  When \<open>applyExampleOverlays\<close>
  collects no action, it returns the document itself and leaves the store as it is.
  When it collects at least one action, every cell allocated before the call is left
  unmodified, whether the call returns or raises, and a returned value is a reference to
  a cell allocated during the call, never the original document.  \<open>applyJsonPathOverlay\<close>
  on its own returns the very reference it was given.
\<close>

theorem applyExampleOverlays_copies:
  assumes "matchesWithin JSONPath" and "d < nextAddr h"
    and "collectActions P fetch rootDir chainDirOf rpcUrl = (warnings, Inr loaded)"
    and "applyExampleOverlays JSONPath P fetch rootDir chainDirOf h (Ref d) rpcUrl = (h', printed, outcome)"
  shows "(loaded = [] \<longrightarrow> h' = h \<and> outcome = Inr (Ref d))
       \<and> (loaded \<noteq> [] \<longrightarrow>
            (\<forall>a<nextAddr h. cells h' a = cells h a)
          \<and> outcome \<noteq> Inr (Ref d)
          \<and> (\<forall>v. outcome = Inr v \<longrightarrow> (\<exists>r. v = Ref r \<and> nextAddr h \<le> r \<and> r < nextAddr h')))
       \<and> (\<forall>actions h2 v. applyJsonPathOverlay JSONPath h (Ref d) actions = (h2, Inr v) \<longrightarrow> v = Ref d)"
proof -
  have none: "loaded = [] \<longrightarrow> h' = h \<and> outcome = Inr (Ref d)"
    using assms(3,4) by (auto simp: applyExampleOverlays_def)
  have same: "\<forall>actions h2 v. applyJsonPathOverlay JSONPath h (Ref d) actions = (h2, Inr v) \<longrightarrow> v = Ref d"
    by (blast dest: applyJsonPathOverlay_returns_argument)
  have copied: "(\<forall>a<nextAddr h. cells h' a = cells h a)
          \<and> outcome \<noteq> Inr (Ref d)
          \<and> (\<forall>v. outcome = Inr v \<longrightarrow> (\<exists>r. v = Ref r \<and> nextAddr h \<le> r \<and> r < nextAddr h'))"
    if some: "loaded \<noteq> []"
  proof -
  define n where "n = nextAddr h"
  obtain actions h1 where intern: "internActions loaded h = (actions, h1)"
    by (cases "internActions loaded h")
  have n0: "n \<le> nextAddr h" "confined n h" by (simp_all add: n_def confined_top)
  from internActions_region [OF intern n0]
  have s1: "nextAddr h \<le> nextAddr h1" "\<forall>b<nextAddr h. cells h1 b = cells h b" "confined n h1"
    "\<forall>a\<in>set actions. actionIn n h1 a" by simp_all
  have n1: "n \<le> nextAddr h1" using s1(1) by (simp add: n_def)
  show ?thesis
  proof (cases "clone h1 (Ref d)")
    case (Inl e)
    with assms(3,4) some intern have "h' = h1" "outcome = Inl e"
      by (simp_all add: applyExampleOverlays_def)
    with s1(2) show ?thesis by simp
  next
    case (Inr c)
    obtain copy h2 where c: "c = (copy, h2)" by (cases c)
    note cl = clone_region [OF Inr [unfolded c] n1 s1(3)]
    from cl(5) obtain r where r: "copy = Ref r" "nextAddr h1 \<le> r" "r < nextAddr h2" by blast
    obtain h3 out where ap: "applyJsonPathOverlay JSONPath h2 copy actions = (h3, out)"
      by (cases "applyJsonPathOverlay JSONPath h2 copy actions")
    have acts2: "\<forall>a\<in>set actions. actionIn n h2 a"
      using s1(4) cl(1) by (auto intro: actionIn_mono)
    from applyJsonPathOverlay_region [OF assms(1) ap cl(3,4) acts2]
    have s3: "nextAddr h2 \<le> nextAddr h3" "\<forall>b<n. cells h3 b = cells h2 b" "\<forall>v. out = Inr v \<longrightarrow> v = copy"
      by simp_all
    from assms(3,4) some intern Inr c ap have res: "h' = h3" "outcome = out"
      by (simp_all add: applyExampleOverlays_def)
    have frame: "\<forall>a<nextAddr h. cells h' a = cells h a"
      using s1(1,2) cl(2) s3(2) by (simp add: res n_def)
    have fresh: "\<forall>v. outcome = Inr v \<longrightarrow> (\<exists>r. v = Ref r \<and> nextAddr h \<le> r \<and> r < nextAddr h')"
      using s3(1,3) r s1(1) by (auto simp: res)
    have "outcome \<noteq> Inr (Ref d)"
      using fresh assms(2) by auto
    with frame fresh show ?thesis by blast
  qed
  qed
  from none copied same show ?thesis by blast
qed

lemma childPath_within: "matchesWithin childPath"
  unfolding matchesWithin_def
proof (intro allI impI)
  fix h doc path matches m p
  assume a: "childPath h doc path = Inr matches \<and> m \<in> set matches \<and> parent m = Some p"
  then have "doc = Ref p"
    by (auto simp: childPath_def split: if_splits jsval.splits cell.splits option.splits)
  then show "p \<in> reach h doc" by (rule reach.root)
qed

lemmas loader_eval =
  collectActions_def sampleOverlays_def sampleParsers_def noChainDir_def startsWithDot_def
  extensionOf_def toLowerCase_def parseOverlayFile_def resolveOverlayChainId_def

lemmas run_eval =
  applyExampleOverlays_def clone_def JSON_stringify_def sampleStore_def alloc_def childPath_def
  selectNodes_def applyAction_def writeCell_def

theorem applyExampleOverlays_copies_witness:
  "cells (fst sampleRun) 0 = cells sampleStore 0
   \<and> cells (fst sampleRun) 1 = cells sampleStore 1
   \<and> cells (fst sampleRun) 2 = cells sampleStore 2
   \<and> snd (snd sampleRun) = Inr (Ref 5)
   \<and> snd (snd sampleRun) \<noteq> Inr (Ref 0)"
proof -
  have loaded: "collectActions sampleParsers emptyFeed sampleOverlays noChainDir None
      = ([], Inr [Remove ''$.info''])"
    by (simp add: loader_eval)
  have d: "0 < nextAddr sampleStore"
    by (simp add: sampleStore_def)
  have run: "applyExampleOverlays childPath sampleParsers emptyFeed sampleOverlays noChainDir sampleStore (Ref 0) None
      = (fst sampleRun, fst (snd sampleRun), snd (snd sampleRun))"
    by (simp add: sampleRun_def)
  have some: "[Remove ''$.info''] \<noteq> ([] :: json OverlayAction list)"
    by simp
  from applyExampleOverlays_copies [OF childPath_within d loaded run] some
  have frame: "\<forall>a<nextAddr sampleStore. cells (fst sampleRun) a = cells sampleStore a"
    and fresh: "snd (snd sampleRun) \<noteq> Inr (Ref 0)"
    by blast+
  have "nextAddr sampleStore = 3" by (simp add: sampleStore_def)
  with frame have "cells (fst sampleRun) 0 = cells sampleStore 0"
    "cells (fst sampleRun) 1 = cells sampleStore 1" "cells (fst sampleRun) 2 = cells sampleStore 2"
    by simp_all
  moreover have "snd (snd sampleRun) = Inr (Ref 5)"
    by (simp add: sampleRun_def loaded run_eval eval_nat_numeral)
  ultimately show ?thesis using fresh by blast
qed

text \<open>
  Deep-copy isolation does not hold of \<open>applyJsonPathOverlay\<close> itself, nor of an
  \<open>applyExampleOverlays\<close> call that finds no overlay: the first patches the sample document
  in place and returns the reference it was given, and the second returns the original
  document.
\<close>

theorem applyJsonPathOverlay_in_place:
  "applyJsonPathOverlay childPath sampleStore (Ref 0) [Remove ''$.info'']
     = (writeCell sampleStore 0 (Obj [(''servers'', Ref 2), (''openrpc'', String ''1.2.6'')]), Inr (Ref 0))
   \<and> cells (writeCell sampleStore 0 (Obj [(''servers'', Ref 2), (''openrpc'', String ''1.2.6'')])) 0
       \<noteq> cells sampleStore 0
   \<and> applyExampleOverlays childPath sampleParsers emptyFeed (Directory []) noChainDir sampleStore (Ref 0) None
       = (sampleStore, [], Inr (Ref 0))"
  by (simp add: selectNodes_def childPath_def applyAction_def writeCell_def sampleStore_def
        applyExampleOverlays_def collectActions_def resolveOverlayChainId_def)

subsection \<open>Chain resolution\<close>

text \<open>
  C2 (amended).  For a non-empty endpoint URL, when the \<open>eth_chainId\<close> exchange raises, or
  answers with something that is not a string or is a blank string,
  \<open>resolveOverlayChainId\<close> prints one warning naming the URL and returns \<open>undefined\<close>: it
  does not propagate the exception, and it does not return a string.  Whenever it
  returns \<open>undefined\<close>, the actions \<open>applyExampleOverlays\<close> collects are those of the root
  overlay directory alone.
\<close>

theorem resolveOverlayChainId_degrades:
  assumes "url \<noteq> []"
  shows "(jsonRpcRequest fetch url ''eth_chainId'' [] = Inl e
            \<longrightarrow> resolveOverlayChainId fetch (Some url) = (None, [(url, e)]))
       \<and> (jsonRpcRequest fetch url ''eth_chainId'' [] = Inr v \<and> (\<forall>s. v \<noteq> JStr s)
            \<longrightarrow> resolveOverlayChainId fetch (Some url) = (None, [(url, TypeError)]))
       \<and> (jsonRpcRequest fetch url ''eth_chainId'' [] = Inr (JStr s) \<and> trim s = []
            \<longrightarrow> resolveOverlayChainId fetch (Some url) = (None, [(url, ChainIdEmpty)]))
       \<and> (fst (resolveOverlayChainId fetch (Some url)) = None
            \<longrightarrow> snd (collectActions P fetch rootDir chainDirOf (Some url))
                = loadOverlayActions P rootDir False)"
proof -
  have raised: "jsonRpcRequest fetch url ''eth_chainId'' [] = Inl e
            \<longrightarrow> resolveOverlayChainId fetch (Some url) = (None, [(url, e)])"
    using assms by (simp add: resolveOverlayChainId_def)
  have malformed: "jsonRpcRequest fetch url ''eth_chainId'' [] = Inr v \<and> (\<forall>s. v \<noteq> JStr s)
            \<longrightarrow> resolveOverlayChainId fetch (Some url) = (None, [(url, TypeError)])"
    using assms by (cases v) (simp_all add: resolveOverlayChainId_def)
  have blank: "jsonRpcRequest fetch url ''eth_chainId'' [] = Inr (JStr s) \<and> trim s = []
            \<longrightarrow> resolveOverlayChainId fetch (Some url) = (None, [(url, ChainIdEmpty)])"
    using assms by (simp add: resolveOverlayChainId_def normalizeChainId_def)
  have global: "fst (resolveOverlayChainId fetch (Some url)) = None
            \<longrightarrow> snd (collectActions P fetch rootDir chainDirOf (Some url))
                = loadOverlayActions P rootDir False"
    by (cases "loadOverlayActions P rootDir False"; cases "resolveOverlayChainId fetch (Some url)")
      (auto simp: collectActions_def)
  from raised malformed blank global show ?thesis by blast
qed

theorem resolveOverlayChainId_degrades_witness:
  "resolveOverlayChainId emptyFeed (Some ''http://node'') = (None, [(''http://node'', Thrown None)])
   \<and> resolveOverlayChainId sixBlockFeed (Some ''http://node'') = (None, [(''http://node'', TypeError)])
   \<and> snd (collectActions sampleParsers emptyFeed sampleOverlays noChainDir (Some ''http://node''))
       = loadOverlayActions sampleParsers sampleOverlays False"
proof -
  have url: "''http://node'' \<noteq> []" by simp
  note T = resolveOverlayChainId_degrades [OF url]
  have "jsonRpcRequest emptyFeed ''http://node'' ''eth_chainId'' [] = Inl (Thrown None)"
    by (simp add: jsonRpcRequest_def emptyFeed_def)
  with T [of emptyFeed "Thrown None"]
  have first: "resolveOverlayChainId emptyFeed (Some ''http://node'') = (None, [(''http://node'', Thrown None)])"
    by blast
  have "jsonRpcRequest sixBlockFeed ''http://node'' ''eth_chainId'' [] = Inr JNull \<and> (\<forall>s. JNull \<noteq> JStr s)"
    by (simp add: jsonRpcRequest_def sixBlockFeed_def okResponse_def)
  with T [of sixBlockFeed _ JNull]
  have second: "resolveOverlayChainId sixBlockFeed (Some ''http://node'') = (None, [(''http://node'', TypeError)])"
    by blast
  from first have "fst (resolveOverlayChainId emptyFeed (Some ''http://node'')) = None"
    by simp
  with T [of emptyFeed _ _ _ sampleParsers sampleOverlays noChainDir]
  have "snd (collectActions sampleParsers emptyFeed sampleOverlays noChainDir (Some ''http://node''))
       = loadOverlayActions sampleParsers sampleOverlays False"
    by blast
  with first second show ?thesis by blast
qed

text \<open>
  The value returned after a failed query is \<open>undefined\<close>, not the string \<open>"unknown"\<close>.
\<close>

theorem resolveOverlayChainId_not_unknown:
  "fst (resolveOverlayChainId emptyFeed (Some ''http://node'')) = None
   \<and> fst (resolveOverlayChainId emptyFeed (Some ''http://node'')) \<noteq> Some ''unknown''"
  by (simp add: resolveOverlayChainId_def jsonRpcRequest_def emptyFeed_def)

end
